theory Spec2Isabelle
  imports Main "HOL-Library.Multiset" "HOL-Library.List_Lexorder" "HOL-Library.Char_ord"
begin

section \<open>Strings\<close>

text \<open>
  In the tools, the Store and the file tree a JavaScript string is a \<^typ>\<open>string\<close>, one
  8-bit character for each of its characters. The classifier, which lower-cases its
  input, reads a string as the list of its code points (below). The functions of this
  section work on both.
\<close>

text \<open>\<open>s.startsWith(p)\<close>.\<close>

fun startsWith :: "'a list \<Rightarrow> 'a list \<Rightarrow> bool" where
  "startsWith s [] = True"
| "startsWith [] (p # ps) = False"
| "startsWith (c # cs) (p # ps) = (c = p \<and> startsWith cs ps)"

text \<open>
  \<open>s.split(sep)\<close> for a separator of one character: the pieces between the
  separators, in order; the result is never empty (\<open>''''.split(sep)\<close> is \<open>['''']\<close>).
\<close>

fun split :: "'a \<Rightarrow> 'a list \<Rightarrow> 'a list list" where
  "split sep [] = [[]]"
| "split sep (c # cs) =
     (if c = sep then [] # split sep cs
      else (let r = split sep cs in (c # hd r) # tl r))"

text \<open>\<open>xs.pop()\<close>, the value returned: the last element, \<open>undefined\<close> on an empty array.\<close>

definition pop :: "'a list \<Rightarrow> 'a option" where
  "pop xs = (if xs = [] then None else Some (last xs))"

text \<open>\<open>v || ''''\<close> for a string or \<open>undefined\<close>.\<close>

definition orEmpty :: "'a list option \<Rightarrow> 'a list" where
  "orEmpty v = (case v of None \<Rightarrow> [] | Some s \<Rightarrow> s)"

section \<open>The artifact classifier (src/lib/artifacts.ts)\<close>

text \<open>
  \<open>toLowerCase\<close> follows Unicode, so the classifier reads a path as the sequence of its
  code points (a lone surrogate counts as one). Splitting at a slash or a dot, comparing
  with \<open>===\<close> and \<open>includes\<close> give the same on code points as on the code units of the
  JavaScript string. \<open>codePoints\<close> turns a string of 8-bit characters into its code points.
\<close>

definition codePoints :: "string \<Rightarrow> nat list" where
  "codePoints s = map of_char s"

definition slashCode :: nat where
  "slashCode = of_char CHR ''/''"

definition dotCode :: nat where
  "dotCode = of_char CHR ''.''"

text \<open>
  \<open>String.prototype.toLowerCase\<close> replaces every code point of the string by its
  lower-case form, one after the other. In the ASCII range that is: \<open>A\<close> to \<open>Z\<close> (65 to 90)
  become \<open>a\<close> to \<open>z\<close>, every other code point below 128 stays. What Unicode gives a code
  point from 128 on is a parameter of the model, \<open>other\<close>: a function of the code points
  before it, the code point, and the code points after it (Unicode's lower case of a
  capital sigma depends on its neighbours), to the code points that replace it (there
  can be two, as for U+0130).
\<close>

type_synonym Lowering = "nat list \<Rightarrow> nat \<Rightarrow> nat list \<Rightarrow> nat list"

definition lowerAt :: "Lowering \<Rightarrow> nat list \<Rightarrow> nat \<Rightarrow> nat list \<Rightarrow> nat list" where
  "lowerAt other pre c suf =
     (if 65 \<le> c \<and> c \<le> 90 then [c + 32]
      else if c < 128 then [c]
      else other pre c suf)"

fun lowerFrom :: "Lowering \<Rightarrow> nat list \<Rightarrow> nat list \<Rightarrow> nat list" where
  "lowerFrom other pre [] = []"
| "lowerFrom other pre (c # suf) =
     lowerAt other pre c suf @ lowerFrom other (pre @ [c]) suf"

definition toLowerCase :: "Lowering \<Rightarrow> nat list \<Rightarrow> nat list" where
  "toLowerCase other s = lowerFrom other [] s"

datatype ArtifactKind = Text | Code | Svg | Html | Csv | Mermaid | Markdown

definition codeExtensions :: "string list" where
  "codeExtensions =
    [''js'', ''jsx'', ''ts'', ''tsx'', ''mjs'', ''cjs'', ''py'', ''go'', ''rs'', ''java'', ''jar'',
     ''c'', ''cc'', ''cpp'', ''cxx'', ''h'', ''hpp'', ''hxx'', ''hh'', ''cs'', ''php'', ''rb'',
     ''swift'', ''kt'', ''kts'', ''scala'', ''sc'', ''dart'', ''m'', ''mm'', ''sh'', ''bash'',
     ''zsh'', ''ksh'', ''pl'', ''pm'', ''t'', ''r'', ''jl'', ''lua'', ''hs'', ''ex'', ''exs'',
     ''erl'', ''hrl'', ''fs'', ''fsi'', ''fsx'', ''fsscript'', ''vb'', ''vbs'', ''asm'', ''s'',
     ''S'', ''sql'', ''d.ts'', ''groovy'', ''gradle'', ''coffee'', ''nim'', ''clj'', ''cljs'',
     ''edn'', ''lisp'', ''scm'', ''rkt'', ''ml'', ''mli'', ''ada'', ''adb'', ''ads'', ''pas'',
     ''pp'', ''f'', ''f90'', ''f95'', ''for'', ''v'', ''vh'', ''sv'', ''vhd'', ''vhdl'',
     ''css'', ''scss'', ''sass'', ''less'', ''styl'', ''json'', ''jsonc'', ''json5'',
     ''yaml'', ''yml'', ''toml'', ''ini'', ''conf'', ''cfg'', ''xml'']"

text \<open>\<open>path.split(sep).pop()?.toLowerCase() || ''''\<close>, the first two lines of \<open>artifactKind\<close>.\<close>

definition lastPiece :: "Lowering \<Rightarrow> nat \<Rightarrow> nat list \<Rightarrow> nat list" where
  "lastPiece other sep path = orEmpty (map_option (toLowerCase other) (pop (split sep path)))"

definition artifactKind :: "Lowering \<Rightarrow> nat list \<Rightarrow> ArtifactKind" where
  "artifactKind other path =
    (let ext = lastPiece other dotCode path;
         basename = lastPiece other slashCode path
     in if basename = codePoints ''dockerfile'' \<or> startsWith basename (codePoints ''dockerfile.'')
        then Code
        else if basename = codePoints ''makefile'' \<or> startsWith basename (codePoints ''makefile.'')
        then Code
        else if ext = codePoints ''html'' \<or> ext = codePoints ''htm'' then Html
        else if ext = codePoints ''svg'' then Svg
        else if ext = codePoints ''csv'' \<or> ext = codePoints ''tsv'' then Csv
        else if ext = codePoints ''mmd'' \<or> ext = codePoints ''mermaid'' then Mermaid
        else if ext = codePoints ''md'' \<or> ext = codePoints ''markdown'' then Markdown
        else if ext \<in> set (map codePoints codeExtensions) then Code
        else Text)"

text \<open>The final slash-separated segment of a path, as written (not lowercased).\<close>

definition finalSegment :: "nat list \<Rightarrow> nat list" where
  "finalSegment path = last (split slashCode path)"

text \<open>
  The two basename tests of \<open>artifactKind\<close> (Dockerfile and Makefile names), on a
  lowercased basename.
\<close>

definition reservedBasename :: "nat list \<Rightarrow> bool" where
  "reservedBasename b =
     (b = codePoints ''dockerfile'' \<or> startsWith b (codePoints ''dockerfile.'') \<or>
      b = codePoints ''makefile'' \<or> startsWith b (codePoints ''makefile.''))"

text \<open>
  Unicode's lower case for the code points from 128 to 255 (\<open>U+00C0\<close> to \<open>U+00DE\<close> without
  the multiplication sign move up by 32), every other code point left as it is: what
  \<open>toLowerCase\<close> does on a string whose code points from 256 on have no lower-case form
  of their own, as in the examples below.
\<close>

definition latinLower :: Lowering where
  "latinLower pre c suf = (if 192 \<le> c \<and> c \<le> 222 \<and> c \<noteq> 215 then [c + 32] else [c])"








section \<open>The Store interface (FileSystemManager, FileRecord)\<close>

text \<open>
  Modelled from the spec: the record type \<open>FileRecord\<close> of \<open>lib/fs\<close> is not among the
  sources. The tools read its fields \<open>path\<close>, \<open>content\<close> and \<open>contentType\<close>; the spec
  (section 3) makes \<open>contentType\<close> the tag the classifier derives. The time stamps of the
  spec are left out: nothing here reads them.
\<close>

record FileRecord =
  path :: string
  content :: string
  contentType :: ArtifactKind

text \<open>The error taxonomy of the spec (section 7): what a Store operation can throw.\<close>

datatype StoreError = InvalidPath | AlreadyExists | NotFound

text \<open>
  Modelled from the spec: the class \<open>FileSystemManager\<close> of \<open>lib/fs\<close> is not among the
  sources, so the tools take its operations as a parameter, a record of functions over a
  Store state \<open>'fs\<close>. The lookups \<open>getFile\<close> and \<open>listFiles\<close> have no effect and never
  fail (spec, section 4.1); a mutating operation throws (\<open>Inl\<close>) or returns with the new
  state, \<open>deleteFile\<close> and \<open>renameFile\<close> with their boolean result.
\<close>

record 'fs FileSystemManager =
  createFile :: "'fs \<Rightarrow> string \<Rightarrow> string \<Rightarrow> StoreError + 'fs"
  getFile :: "'fs \<Rightarrow> string \<Rightarrow> FileRecord option"
  listFiles :: "'fs \<Rightarrow> FileRecord list"
  deleteFile :: "'fs \<Rightarrow> string \<Rightarrow> StoreError + bool \<times> 'fs"
  renameFile :: "'fs \<Rightarrow> string \<Rightarrow> string \<Rightarrow> StoreError + bool \<times> 'fs"

text \<open>The calls a tool makes on the Store, in order.\<close>

datatype StoreCall =
  CreateFile string string
| GetFile string
| ListFiles
| DeleteFile string
| RenameFile string string

section \<open>The artifacts tools (src/hooks/useArtifacts.ts, artifactsTools)\<close>

text \<open>
  A tool takes \<open>args: Record<string, unknown>\<close> and reads its fields with
  \<open>args.path as string\<close>, a cast that checks nothing. The model covers the argument
  objects the schemas of the tools describe: a map from field names to strings, a
  missing field being \<open>undefined\<close>. An argument that is truthy and no string (a number,
  \<open>true\<close>, an object) has no counterpart here: \<open>create_file\<close> and \<open>move_file\<close> call
  \<open>startsWith\<close> on it before their \<open>try\<close> and throw a \<open>TypeError\<close>, so that no response is
  returned at all. A tool returns \<open>JSON.stringify\<close> of an object literal: the response is
  that object, its fields in order.
\<close>

type_synonym Args = "string \<Rightarrow> string option"

datatype Json =
  JNull
| JBool bool
| JNumber nat
| JString string
| JArray "Json list"
| JObject "(string \<times> Json) list"

type_synonym Response = "(string \<times> Json) list"

text \<open>
  What a call of a tool leaves behind: the response, the Store (\<open>fs\<close>, which is \<open>null\<close>
  until a manager is set) and the calls made on it.
\<close>

record 'fs Outcome =
  response :: Response
  store :: "'fs option"
  calls :: "StoreCall list"

text \<open>\<open>!v\<close> for a string or \<open>undefined\<close>: true for \<open>undefined\<close> and for the empty string.\<close>

definition falsy :: "string option \<Rightarrow> bool" where
  "falsy v = (v = None \<or> v = Some [])"

text \<open>A string or \<open>undefined\<close> inside a template literal, or passed where a string is read.\<close>

definition str :: "string option \<Rightarrow> string" where
  "str v = (case v of None \<Rightarrow> ''undefined'' | Some s \<Rightarrow> s)"

definition kindName :: "ArtifactKind \<Rightarrow> string" where
  "kindName k = (case k of Text \<Rightarrow> ''text'' | Code \<Rightarrow> ''code'' | Svg \<Rightarrow> ''svg'' | Html \<Rightarrow> ''html''
     | Csv \<Rightarrow> ''csv'' | Mermaid \<Rightarrow> ''mermaid'' | Markdown \<Rightarrow> ''markdown'')"

definition errorResponse :: "string \<Rightarrow> Response" where
  "errorResponse msg = [(''error'', JString msg)]"

definition create_file :: "'fs FileSystemManager \<Rightarrow> 'fs option \<Rightarrow> Args \<Rightarrow> 'fs Outcome" where
  "create_file ops fs args =
    (let path = args ''path''; content = args ''content'' in
     if falsy path \<or> falsy content then
       \<lparr>response = errorResponse ''Path and content are required'', store = fs, calls = []\<rparr>
     else if \<not> startsWith (str path) ''/'' then
       \<lparr>response = errorResponse ''Path must start with /'', store = fs, calls = []\<rparr>
     else
       (case fs of
          None \<Rightarrow> \<lparr>response = errorResponse ''File system not available'', store = fs, calls = []\<rparr>
        | Some s \<Rightarrow>
            (case createFile ops s (str path) (str content) of
               Inl e \<Rightarrow>
                 \<lparr>response = errorResponse ''Failed to create file'', store = Some s,
                  calls = [CreateFile (str path) (str content)]\<rparr>
             | Inr s' \<Rightarrow>
                 \<lparr>response = [(''success'', JBool True),
                              (''message'', JString (''File created: '' @ str path)),
                              (''path'', JString (str path))],
                  store = Some s',
                  calls = [CreateFile (str path) (str content)]\<rparr>)))"

definition fileListEntry :: "FileRecord \<Rightarrow> Json" where
  "fileListEntry file =
     JObject [(''path'', JString (path file)),
              (''size'', JNumber (length (content file))),
              (''contentType'', JString (kindName (contentType file)))]"

definition list_files :: "'fs FileSystemManager \<Rightarrow> 'fs option \<Rightarrow> Args \<Rightarrow> 'fs Outcome" where
  "list_files ops fs args =
    (let directory = args ''directory'' in
     case fs of
       None \<Rightarrow> \<lparr>response = errorResponse ''File system not available'', store = fs, calls = []\<rparr>
     | Some s \<Rightarrow>
         (let allFiles = listFiles ops s;
              filteredFiles =
                (if \<not> falsy directory
                 then filter (\<lambda>file. startsWith (path file) (str directory)) allFiles
                 else allFiles);
              fileList = map fileListEntry filteredFiles
          in \<lparr>response = [(''success'', JBool True),
                           (''files'', JArray fileList),
                           (''count'', JNumber (length fileList))],
               store = fs, calls = [ListFiles]\<rparr>))"

definition delete_file :: "'fs FileSystemManager \<Rightarrow> 'fs option \<Rightarrow> Args \<Rightarrow> 'fs Outcome" where
  "delete_file ops fs args =
    (let path = args ''path'' in
     if falsy path then
       \<lparr>response = errorResponse ''Path is required'', store = fs, calls = []\<rparr>
     else
       (case fs of
          None \<Rightarrow> \<lparr>response = errorResponse ''File system not available'', store = fs, calls = []\<rparr>
        | Some s \<Rightarrow>
            (let file = getFile ops s (str path);
                 isFolder = list_ex (\<lambda>f. startsWith (FileRecord.path f) (str path @ ''/''))
                              (listFiles ops s)
             in if file = None \<and> \<not> isFolder then
                  \<lparr>response = errorResponse (''File or folder not found: '' @ str path),
                   store = fs, calls = [GetFile (str path), ListFiles]\<rparr>
                else
                  (case deleteFile ops s (str path) of
                     Inl e \<Rightarrow>
                       \<lparr>response = errorResponse ''Failed to delete item'', store = Some s,
                        calls = [GetFile (str path), ListFiles, DeleteFile (str path)]\<rparr>
                   | Inr (success, s') \<Rightarrow>
                       (if success then
                          (let itemType = (if file \<noteq> None then ''file'' else ''folder'') in
                           \<lparr>response = [(''success'', JBool True),
                                        (''message'', JString (itemType @ '' deleted: '' @ str path)),
                                        (''path'', JString (str path))],
                            store = Some s',
                            calls = [GetFile (str path), ListFiles, DeleteFile (str path)]\<rparr>)
                        else
                          \<lparr>response = errorResponse (''Failed to delete: '' @ str path),
                           store = Some s',
                           calls = [GetFile (str path), ListFiles, DeleteFile (str path)]\<rparr>)))))"

definition move_file :: "'fs FileSystemManager \<Rightarrow> 'fs option \<Rightarrow> Args \<Rightarrow> 'fs Outcome" where
  "move_file ops fs args =
    (let fromPath = args ''fromPath''; toPath = args ''toPath'' in
     if falsy fromPath \<or> falsy toPath then
       \<lparr>response = errorResponse ''Both fromPath and toPath are required'', store = fs, calls = []\<rparr>
     else
       (case fs of
          None \<Rightarrow> \<lparr>response = errorResponse ''File system not available'', store = fs, calls = []\<rparr>
        | Some s \<Rightarrow>
            (let sourceFile = getFile ops s (str fromPath) in
             if sourceFile = None then
               \<lparr>response = errorResponse (''Source file not found: '' @ str fromPath),
                store = fs, calls = [GetFile (str fromPath)]\<rparr>
             else
               (let destFile = getFile ops s (str toPath) in
                if destFile \<noteq> None then
                  \<lparr>response = errorResponse (''Destination file already exists: '' @ str toPath),
                   store = fs, calls = [GetFile (str fromPath), GetFile (str toPath)]\<rparr>
                else if \<not> startsWith (str toPath) ''/'' then
                  \<lparr>response = errorResponse ''Destination path must start with /'',
                   store = fs, calls = [GetFile (str fromPath), GetFile (str toPath)]\<rparr>
                else
                  (case renameFile ops s (str fromPath) (str toPath) of
                     Inl e \<Rightarrow>
                       \<lparr>response = errorResponse ''Failed to move file'', store = Some s,
                        calls = [GetFile (str fromPath), GetFile (str toPath),
                                 RenameFile (str fromPath) (str toPath)]\<rparr>
                   | Inr (success, s') \<Rightarrow>
                       (if \<not> success then
                          \<lparr>response = errorResponse (''Failed to move file from '' @ str fromPath
                             @ '' to '' @ str toPath
                             @ ''. Source may not exist or destination already exists.''),
                           store = Some s',
                           calls = [GetFile (str fromPath), GetFile (str toPath),
                                    RenameFile (str fromPath) (str toPath)]\<rparr>
                        else
                          \<lparr>response = [(''success'', JBool True),
                                        (''message'', JString (''File moved from '' @ str fromPath
                                           @ '' to '' @ str toPath)),
                                        (''fromPath'', JString (str fromPath)),
                                        (''toPath'', JString (str toPath))],
                           store = Some s',
                           calls = [GetFile (str fromPath), GetFile (str toPath),
                                    RenameFile (str fromPath) (str toPath)]\<rparr>))))))"

definition read_file :: "'fs FileSystemManager \<Rightarrow> 'fs option \<Rightarrow> Args \<Rightarrow> 'fs Outcome" where
  "read_file ops fs args =
    (let path = args ''path'' in
     if falsy path then
       \<lparr>response = errorResponse ''Path is required'', store = fs, calls = []\<rparr>
     else
       (case fs of
          None \<Rightarrow> \<lparr>response = errorResponse ''File system not available'', store = fs, calls = []\<rparr>
        | Some s \<Rightarrow>
            (case getFile ops s (str path) of
               None \<Rightarrow>
                 \<lparr>response = errorResponse (''File not found: '' @ str path),
                  store = fs, calls = [GetFile (str path)]\<rparr>
             | Some file \<Rightarrow>
                 (let fileInfo = JObject [(''path'', JString (str path)),
                                          (''size'', JNumber (length (content file))),
                                          (''content'', JString (content file)),
                                          (''contentType'', JString (kindName (contentType file)))]
                  in \<lparr>response = [(''success'', JBool True), (''file'', fileInfo)],
                       store = fs, calls = [GetFile (str path)]\<rparr>))))"

text \<open>The two tools without arguments read \<open>activeFile: string | null\<close> of the context.\<close>

definition current_path :: "string option \<Rightarrow> 'fs option \<Rightarrow> Args \<Rightarrow> 'fs Outcome" where
  "current_path activeFile fs args =
    (if falsy activeFile then
       \<lparr>response = [(''success'', JBool True),
                    (''message'', JString ''No file is currently active''),
                    (''currentPath'', JNull)],
        store = fs, calls = []\<rparr>
     else
       \<lparr>response = [(''success'', JBool True), (''currentPath'', JString (str activeFile))],
        store = fs, calls = []\<rparr>)"

definition current_file ::
  "'fs FileSystemManager \<Rightarrow> string option \<Rightarrow> 'fs option \<Rightarrow> Args \<Rightarrow> 'fs Outcome" where
  "current_file ops activeFile fs args =
    (if falsy activeFile then
       \<lparr>response = [(''success'', JBool True),
                    (''message'', JString ''No file is currently active''),
                    (''currentFile'', JNull)],
        store = fs, calls = []\<rparr>
     else
       (case fs of
          None \<Rightarrow> \<lparr>response = errorResponse ''File system not available'', store = fs, calls = []\<rparr>
        | Some s \<Rightarrow>
            (case getFile ops s (str activeFile) of
               None \<Rightarrow>
                 \<lparr>response = errorResponse (''Active file not found: '' @ str activeFile),
                  store = fs, calls = [GetFile (str activeFile)]\<rparr>
             | Some file \<Rightarrow>
                 (let fileInfo = JObject [(''path'', JString (path file)),
                                          (''size'', JNumber (length (content file))),
                                          (''content'', JString (content file)),
                                          (''contentType'', JString (kindName (contentType file)))]
                  in \<lparr>response = [(''success'', JBool True), (''currentFile'', fileInfo)],
                       store = fs, calls = [GetFile (str activeFile)]\<rparr>))))"

text \<open>The tool set: the names and the functions of \<open>artifactsTools\<close>, in order.\<close>

definition artifactsTools ::
  "'fs FileSystemManager \<Rightarrow> 'fs option \<Rightarrow> string option \<Rightarrow> (string \<times> (Args \<Rightarrow> 'fs Outcome)) list" where
  "artifactsTools ops fs activeFile =
    [(''create_file'', create_file ops fs),
     (''list_files'', list_files ops fs),
     (''delete_file'', delete_file ops fs),
     (''move_file'', move_file ops fs),
     (''read_file'', read_file ops fs),
     (''current_path'', current_path activeFile fs),
     (''current_file'', current_file ops activeFile fs)]"

text \<open>
  The two shapes of a response: a field \<open>success\<close> holding \<open>true\<close>, a field \<open>error\<close> holding
  a string. A well-formed response has exactly one of them.
\<close>

definition hasSuccess :: "Response \<Rightarrow> bool" where
  "hasSuccess r = (map_of r ''success'' = Some (JBool True))"

definition hasError :: "Response \<Rightarrow> bool" where
  "hasError r = (case map_of r ''error'' of Some (JString msg) \<Rightarrow> True | _ \<Rightarrow> False)"

definition wellFormedResponse :: "Response \<Rightarrow> bool" where
  "wellFormedResponse r = (hasSuccess r \<noteq> hasError r)"

section \<open>The Store as the spec describes it\<close>

text \<open>
  Modelled from the spec: the Store of \<open>lib/fs\<close> (section 4.1), missing from the sources.
  Its state is the sequence of records, in insertion order, and the version counter that
  every successful mutation increments. Events are not modelled.
\<close>

record Store =
  records :: "FileRecord list"
  version :: nat

text \<open>
  Modelled from the spec: a path is absolute, slash-separated, never empty, begins with a
  slash, has no trailing slash and no empty segment (section 3).
\<close>

definition wellFormedPath :: "string \<Rightarrow> bool" where
  "wellFormedPath p = (startsWith p ''/'' \<and> [] \<notin> set (tl (split CHR ''/'' p)))"

text \<open>
  Modelled from the spec: a record lies under a folder when its path starts with the
  folder's path followed by a slash.
\<close>

definition underFolder :: "string \<Rightarrow> string \<Rightarrow> bool" where
  "underFolder folder candidate = startsWith candidate (folder @ ''/'')"

text \<open>
  Modelled from the spec: the comparison required of \<open>listFiles\<close> with a directory prefix,
  \<open>candidate === prefix || candidate.startsWith(prefix + '/')\<close>, the prefix normalised so
  that \<open>/src\<close> and \<open>/src/\<close> are the same directory.
\<close>

definition inDirectory :: "string \<Rightarrow> string \<Rightarrow> bool" where
  "inDirectory directory candidate =
     (let prefix = (if directory \<noteq> [] \<and> last directory = CHR ''/'' then butlast directory
                    else directory)
      in candidate = prefix \<or> startsWith candidate (prefix @ ''/''))"

text \<open>Modelled from the spec: \<open>getFile\<close>, a pure lookup by exact path.\<close>

definition Store_getFile :: "Store \<Rightarrow> string \<Rightarrow> FileRecord option" where
  "Store_getFile s p = find (\<lambda>r. path r = p) (records s)"

text \<open>Modelled from the spec: \<open>listFiles()\<close> with no filter returns every record.\<close>

definition Store_listFiles :: "Store \<Rightarrow> FileRecord list" where
  "Store_listFiles s = records s"

text \<open>
  Modelled from the spec: \<open>createFile\<close> fails with \<open>InvalidPath\<close> on a malformed path and
  with \<open>AlreadyExists\<close> on an occupied one; otherwise it inserts the classified record.
  A path here is a string of 8-bit characters, code points below 256, whose lower case
  \<open>latinLower\<close> gives.
\<close>

definition Store_createFile :: "Store \<Rightarrow> string \<Rightarrow> string \<Rightarrow> StoreError + Store" where
  "Store_createFile s p c =
     (if \<not> wellFormedPath p then Inl InvalidPath
      else if Store_getFile s p \<noteq> None then Inl AlreadyExists
      else Inr (s\<lparr>records := records s
                    @ [\<lparr>path = p, content = c,
                        contentType = artifactKind latinLower (codePoints p)\<rparr>],
                  version := version s + 1\<rparr>))"

text \<open>
  Modelled from the spec: \<open>deleteFile\<close> removes the record at the exact path if there is
  one, else every record under the path as a folder; \<open>false\<close> when there is neither.
\<close>

definition Store_deleteFile :: "Store \<Rightarrow> string \<Rightarrow> StoreError + bool \<times> Store" where
  "Store_deleteFile s p =
     (if Store_getFile s p \<noteq> None then
        Inr (True, s\<lparr>records := filter (\<lambda>r. path r \<noteq> p) (records s), version := version s + 1\<rparr>)
      else if list_ex (\<lambda>r. underFolder p (path r)) (records s) then
        Inr (True, s\<lparr>records := filter (\<lambda>r. \<not> underFolder p (path r)) (records s),
                      version := version s + 1\<rparr>)
      else Inr (False, s))"

text \<open>
  Modelled from the spec: \<open>renameFile\<close> validates the new path first; it renames the record
  at the exact old path unless the new path is taken; when the old path is no record but
  a folder of records, it moves them all, the suffix after the old prefix kept, or none
  of them if a target is taken.
\<close>

definition Store_renameFile :: "Store \<Rightarrow> string \<Rightarrow> string \<Rightarrow> StoreError + bool \<times> Store" where
  "Store_renameFile s oldPath newPath =
     (if \<not> startsWith newPath ''/'' then Inl InvalidPath
      else if Store_getFile s oldPath \<noteq> None then
        (if Store_getFile s newPath \<noteq> None then Inr (False, s)
         else Inr (True, s\<lparr>records := map (\<lambda>r. if path r = oldPath then r\<lparr>path := newPath\<rparr> else r)
                                        (records s),
                            version := version s + 1\<rparr>))
      else
        (let target = (\<lambda>r. newPath @ drop (length oldPath) (path r));
             moved = filter (\<lambda>r. underFolder oldPath (path r)) (records s)
         in if moved = [] then Inr (False, s)
            else if list_ex (\<lambda>r. Store_getFile s (target r) \<noteq> None) moved then Inr (False, s)
            else Inr (True, s\<lparr>records := map (\<lambda>r. if underFolder oldPath (path r)
                                                    then r\<lparr>path := target r\<rparr> else r) (records s),
                               version := version s + 1\<rparr>)))"

text \<open>Modelled from the spec: the Store above as a \<open>FileSystemManager\<close>.\<close>

definition specStore :: "Store FileSystemManager" where
  "specStore = \<lparr>createFile = Store_createFile, getFile = Store_getFile,
                 listFiles = Store_listFiles, deleteFile = Store_deleteFile,
                 renameFile = Store_renameFile\<rparr>"

text \<open>The files of the spec's folder examples (section 8).\<close>

definition exampleStore :: Store where
  "exampleStore =
     \<lparr>records = [\<lparr>path = ''/src/a.ts'', content = ''a'', contentType = Code\<rparr>,
               \<lparr>path = ''/src/b.ts'', content = ''bb'', contentType = Code\<rparr>,
               \<lparr>path = ''/src2/c.ts'', content = ''ccc'', contentType = Code\<rparr>],
      version = 3\<rparr>"

section \<open>The file tree of the drawer (buildFileTree)\<close>

text \<open>
  \<open>interface FileNode\<close>: a node has a name, a path, a type, and either children (a folder)
  or the file object it stands for (a file). A missing \<open>children\<close> is the empty list and
  a missing \<open>file\<close> is \<open>None\<close>.
\<close>

datatype NodeType = FileType | FolderType

datatype FileNode =
  FileNode (name: string) (nodePath: string) (nodeType: NodeType)
           (children: "FileNode list") (nodeFile: "FileRecord option")

text \<open>
  The comparator of both \<open>currentLevel.sort\<close> calls: folders before files, then
  \<open>a.name.localeCompare(b.name)\<close>. \<open>localeCompare\<close> depends on the locale of the host, so
  it is a parameter of the model: a function from two strings to a negative number,
  zero or a positive number.
\<close>

definition compareNodes :: "(string \<Rightarrow> string \<Rightarrow> int) \<Rightarrow> FileNode \<Rightarrow> FileNode \<Rightarrow> int" where
  "compareNodes localeCompare a b =
     (if nodeType a = FolderType \<and> nodeType b = FileType then - 1
      else if nodeType a = FileType \<and> nodeType b = FolderType then 1
      else localeCompare (name a) (name b))"

text \<open>
  \<open>Array.prototype.sort\<close> is stable, and with a consistent comparator its result is the
  one stably sorted permutation of the array, which insertion from left to right
  computes: an element goes in front of the first one it is smaller than.
\<close>

fun insertSorted :: "('a \<Rightarrow> 'a \<Rightarrow> int) \<Rightarrow> 'a \<Rightarrow> 'a list \<Rightarrow> 'a list" where
  "insertSorted cmp x [] = [x]"
| "insertSorted cmp x (y # ys) =
     (if cmp x y < 0 then x # y # ys else y # insertSorted cmp x ys)"

definition sortBy :: "('a \<Rightarrow> 'a \<Rightarrow> int) \<Rightarrow> 'a list \<Rightarrow> 'a list" where
  "sortBy cmp xs = foldl (\<lambda>acc x. insertSorted cmp x acc) [] xs"

text \<open>\<open>file.path.split('/').filter(part => part.length > 0)\<close>.\<close>

definition pathParts :: "string \<Rightarrow> string list" where
  "pathParts p = filter (\<lambda>part. length part > 0) (split CHR ''/'' p)"

text \<open>
  \<open>folderMap\<close> maps the path of every folder created so far to its node object, and
  \<open>currentLevel\<close> is a reference to the array being filled. In the model \<open>folderMap\<close> is the
  list of its keys, and the node a key stands for is looked up in the current level,
  where the loop that created it pushed it: \<open>findFolder\<close> splits the level at the folder
  node with the given path.
\<close>

fun findFolder :: "string \<Rightarrow> FileNode list \<Rightarrow> (FileNode list \<times> FileNode \<times> FileNode list) option" where
  "findFolder p [] = None"
| "findFolder p (n # ns) =
     (if nodeType n = FolderType \<and> nodePath n = p then Some ([], n, ns)
      else (case findFolder p ns of
              None \<Rightarrow> None
            | Some (before, folderNode, after) \<Rightarrow> Some (n # before, folderNode, after)))"

text \<open>
  The body of the loop over \<open>sortedFiles\<close>, for one file: the inner loop over
  \<open>pathParts\<close> walks down the folders, creating, pushing and sorting where \<open>folderMap\<close> has
  no entry, and the last part is pushed as the file node, the level sorted again. The
  result is the new current level and the new \<open>folderMap\<close>. \<open>None\<close> stands for what the
  model does not cover: no path part at all (the source then pushes a node whose name
  is \<open>undefined\<close>), and a \<open>folderMap\<close> entry whose node is not in the current level
  (which never happens, as the theorem below shows for its inputs).
\<close>

fun addFile ::
  "(string \<Rightarrow> string \<Rightarrow> int) \<Rightarrow> FileRecord \<Rightarrow> string list \<Rightarrow> string \<Rightarrow> FileNode list \<Rightarrow> string list
     \<Rightarrow> (FileNode list \<times> string list) option" where
  "addFile lc f [] currentPath currentLevel folderMap = None"
| "addFile lc f [fileName] currentPath currentLevel folderMap =
     Some (sortBy (compareNodes lc)
             (currentLevel @ [FileNode fileName (path f) FileType [] (Some f)]),
           folderMap)"
| "addFile lc f (folderName # part # rest) currentPath currentLevel folderMap =
     (let currentPath' = currentPath @ ''/'' @ folderName;
          (level, folderMap') =
            (if currentPath' \<in> set folderMap then (currentLevel, folderMap)
             else (sortBy (compareNodes lc)
                     (currentLevel @ [FileNode folderName currentPath' FolderType [] None]),
                   currentPath' # folderMap))
      in case findFolder currentPath' level of
           None \<Rightarrow> None
         | Some (before, folderNode, after) \<Rightarrow>
             (case addFile lc f (part # rest) currentPath' (children folderNode) folderMap' of
                None \<Rightarrow> None
              | Some (children', folderMap'') \<Rightarrow>
                  Some (before @ [FileNode (name folderNode) (nodePath folderNode)
                                    (nodeType folderNode) children' (nodeFile folderNode)] @ after,
                        folderMap'')))"

text \<open>The loop over \<open>sortedFiles\<close>, from the tree and the \<open>folderMap\<close> built so far.\<close>

fun addFiles ::
  "(string \<Rightarrow> string \<Rightarrow> int) \<Rightarrow> FileRecord list \<Rightarrow> FileNode list \<Rightarrow> string list
     \<Rightarrow> (FileNode list \<times> string list) option" where
  "addFiles lc [] tree folderMap = Some (tree, folderMap)"
| "addFiles lc (f # fs) tree folderMap =
     (case addFile lc f (pathParts (path f)) [] tree folderMap of
        None \<Rightarrow> None
      | Some (tree', folderMap') \<Rightarrow> addFiles lc fs tree' folderMap')"

definition buildFileTree :: "(string \<Rightarrow> string \<Rightarrow> int) \<Rightarrow> FileRecord list \<Rightarrow> FileNode list option" where
  "buildFileTree lc files =
     (let sortedFiles = sortBy (\<lambda>a b. lc (path a) (path b)) files
      in map_option fst (addFiles lc sortedFiles [] []))"

text \<open>
  A consistent comparator, as \<open>Array.prototype.sort\<close> asks for: \<open>cmp a b\<close> is negative
  exactly when \<open>cmp b a\<close> is positive, and "not after" is transitive.
\<close>

definition consistentComparator :: "('a \<Rightarrow> 'a \<Rightarrow> int) \<Rightarrow> bool" where
  "consistentComparator cmp =
     ((\<forall>a b. (cmp a b < 0) = (cmp b a > 0)) \<and>
      (\<forall>a b c. cmp a b \<le> 0 \<longrightarrow> cmp b c \<le> 0 \<longrightarrow> cmp a c \<le> 0))"

text \<open>The nodes of a tree and of a forest, at every depth, and those of each type.\<close>

fun nodes :: "FileNode \<Rightarrow> FileNode list" where
  "nodes (FileNode nm p t cs f) = FileNode nm p t cs f # concat (map nodes cs)"

definition forestNodes :: "FileNode list \<Rightarrow> FileNode list" where
  "forestNodes forest = concat (map nodes forest)"

definition folderNodes :: "FileNode list \<Rightarrow> FileNode list" where
  "folderNodes forest = filter (\<lambda>n. nodeType n = FolderType) (forestNodes forest)"

definition fileNodes :: "FileNode list \<Rightarrow> FileNode list" where
  "fileNodes forest = filter (\<lambda>n. nodeType n = FileType) (forestNodes forest)"

text \<open>
  A sibling level is ordered when its folder nodes come before its file nodes and the
  nodes of each type are in ascending order of their names.
\<close>

definition levelOrdered :: "(string \<Rightarrow> string \<Rightarrow> int) \<Rightarrow> FileNode list \<Rightarrow> bool" where
  "levelOrdered lc level =
     (let folders = filter (\<lambda>n. nodeType n = FolderType) level;
          files = filter (\<lambda>n. nodeType n = FileType) level
      in level = folders @ files
         \<and> sorted_wrt (\<lambda>a b. lc (name a) (name b) \<le> 0) folders
         \<and> sorted_wrt (\<lambda>a b. lc (name a) (name b) \<le> 0) files)"

definition allLevelsOrdered :: "(string \<Rightarrow> string \<Rightarrow> int) \<Rightarrow> FileNode list \<Rightarrow> bool" where
  "allLevelsOrdered lc forest =
     (levelOrdered lc forest \<and> list_all (\<lambda>n. levelOrdered lc (children n)) (forestNodes forest))"

text \<open>
  For the proofs: a path as the list of its segments, the invariant of a level reached
  along the segments \<open>cs\<close>, and its link with the keys of \<open>folderMap\<close>.
\<close>

definition joinPath :: "string list \<Rightarrow> string" where
  "joinPath segs = concat (map (\<lambda>s. CHR ''/'' # s) segs)"

definition segsOK :: "string list \<Rightarrow> bool" where
  "segsOK segs = (\<forall>s \<in> set segs. s \<noteq> [] \<and> CHR ''/'' \<notin> set s)"

definition folderPaths :: "FileNode list \<Rightarrow> string list" where
  "folderPaths forest = map nodePath (folderNodes forest)"

fun wfNode :: "(string \<Rightarrow> string \<Rightarrow> int) \<Rightarrow> string list \<Rightarrow> FileNode \<Rightarrow> bool" where
  "wfNode lc cs (FileNode nm p t ch f) =
     (if t = FileType then ch = []
      else nm \<noteq> [] \<and> CHR ''/'' \<notin> set nm \<and> p = joinPath (cs @ [nm])
           \<and> sorted_wrt (\<lambda>a b. compareNodes lc a b \<le> 0) ch
           \<and> (\<forall>c \<in> set ch. wfNode lc (cs @ [nm]) c))"

definition wfLevel :: "(string \<Rightarrow> string \<Rightarrow> int) \<Rightarrow> string list \<Rightarrow> FileNode list \<Rightarrow> bool" where
  "wfLevel lc cs level =
     (sorted_wrt (\<lambda>a b. compareNodes lc a b \<le> 0) level \<and> (\<forall>n \<in> set level. wfNode lc cs n))"

definition below :: "string list \<Rightarrow> string set" where
  "below cs = {q. \<exists>more. more \<noteq> [] \<and> segsOK more \<and> q = joinPath (cs @ more)}"

definition treeInv ::
  "(string \<Rightarrow> string \<Rightarrow> int) \<Rightarrow> string list \<Rightarrow> FileNode list \<Rightarrow> string set \<Rightarrow> bool" where
  "treeInv lc cs level fm =
     (wfLevel lc cs level \<and> distinct (folderPaths level)
      \<and> set (folderPaths level) = fm \<inter> below cs)"

definition fileNodeOf :: "FileRecord \<Rightarrow> FileNode" where
  "fileNodeOf f = FileNode (last (pathParts (path f))) (path f) FileType [] (Some f)"

text \<open>A comparator for the examples: strings in the order of their character codes.\<close>

definition codeCompare :: "string \<Rightarrow> string \<Rightarrow> int" where
  "codeCompare a b = (if a < b then - 1 else if a = b then 0 else 1)"

definition exampleFiles :: "FileRecord list" where
  "exampleFiles =
     [\<lparr>path = ''/src/b.ts'', content = ''b'', contentType = Code\<rparr>,
      \<lparr>path = ''/readme.md'', content = ''r'', contentType = Markdown\<rparr>,
      \<lparr>path = ''/src/lib/x.ts'', content = ''x'', contentType = Code\<rparr>,
      \<lparr>path = ''/src/a.ts'', content = ''a'', contentType = Code\<rparr>]"

definition exampleTree :: "FileNode list" where
  "exampleTree =
     [FileNode ''src'' ''/src'' FolderType
        [FileNode ''lib'' ''/src/lib'' FolderType
           [FileNode ''x.ts'' ''/src/lib/x.ts'' FileType []
              (Some \<lparr>path = ''/src/lib/x.ts'', content = ''x'', contentType = Code\<rparr>)]
           None,
         FileNode ''a.ts'' ''/src/a.ts'' FileType []
           (Some \<lparr>path = ''/src/a.ts'', content = ''a'', contentType = Code\<rparr>),
         FileNode ''b.ts'' ''/src/b.ts'' FileType []
           (Some \<lparr>path = ''/src/b.ts'', content = ''b'', contentType = Code\<rparr>)]
        None,
      FileNode ''readme.md'' ''/readme.md'' FileType []
        (Some \<lparr>path = ''/readme.md'', content = ''r'', contentType = Markdown\<rparr>)]"

section \<open>Facts about the string functions\<close>

lemma split_not_Nil: "split sep s \<noteq> []"
  by (induction s) (auto simp: Let_def)

lemma last_split: "last (split sep s) = rev (takeWhile (\<lambda>c. c \<noteq> sep) (rev s))"
proof (induction s)
  case Nil
  show ?case by simp
next
  case (Cons c cs)
  show ?case
  proof (cases "c = sep")
    case True
    then show ?thesis
      using Cons split_not_Nil [of sep cs]
      by (simp add: takeWhile_append)
  next
    case False
    have ne: "split sep cs \<noteq> []" by (rule split_not_Nil)
    show ?thesis
    proof (cases "sep \<in> set cs")
      case True
      then have "tl (split sep cs) \<noteq> []"
        by (induction cs) (auto simp: Let_def split_not_Nil)
      then have "last (split sep (c # cs)) = last (split sep cs)"
        using False ne by (cases "split sep cs") (auto simp: Let_def)
      moreover have "takeWhile (\<lambda>c. c \<noteq> sep) (rev cs @ [c]) = takeWhile (\<lambda>c. c \<noteq> sep) (rev cs)"
        by (rule takeWhile_append1 [where x = sep]) (use True in auto)
      ultimately show ?thesis using Cons by simp
    next
      case notin: False
      then have s1: "split sep cs = [cs]"
        by (induction cs) (auto simp: Let_def)
      have tw: "takeWhile (\<lambda>c. c \<noteq> sep) (rev cs @ [c]) = rev cs @ [c]"
        using notin False by (auto simp: takeWhile_eq_all_conv)
      show ?thesis using False by (simp add: Let_def s1 tw)
    qed
  qed
qed

lemma slashCode_eq [simp]: "slashCode = 47"
  by (simp add: slashCode_def)

lemma dotCode_eq [simp]: "dotCode = 46"
  by (simp add: dotCode_def)

lemma of_char_slash: "(of_char c = (47::nat)) = (c = CHR ''/'')"
proof -
  have e: "(of_char CHR ''/'' :: nat) = 47" by simp
  have "(of_char c = (of_char CHR ''/'' :: nat)) = (c = CHR ''/'')" by (rule of_char_eq_iff)
  then show ?thesis by (simp only: e)
qed

lemma slash_in_codePoints: "(47 \<in> set (codePoints s)) = (CHR ''/'' \<in> set s)"
  by (induction s) (auto simp: codePoints_def of_char_slash eq_commute [of 47])

lemma lastPiece_eq:
  "lastPiece other sep p = toLowerCase other (rev (takeWhile (\<lambda>c. c \<noteq> sep) (rev p)))"
  by (simp add: lastPiece_def pop_def orEmpty_def split_not_Nil last_split)

lemma lastPiece_slash: "lastPiece other slashCode p = toLowerCase other (finalSegment p)"
  by (simp add: lastPiece_eq finalSegment_def last_split)

text \<open>A lowercased string with a slash in it: the string had one, and the other way round.\<close>

lemma slash_in_lowerFrom: "47 \<in> set s \<Longrightarrow> 47 \<in> set (lowerFrom other pre s)"
  by (induction s arbitrary: pre) (auto simp: lowerAt_def)

lemma slash_in_toLowerCase: "47 \<in> set s \<Longrightarrow> 47 \<in> set (toLowerCase other s)"
  by (simp add: toLowerCase_def slash_in_lowerFrom)

section \<open>The classifier reads the basename\<close>

lemma slash_notin_codeExtensions: "CHR ''/'' \<in> set e \<Longrightarrow> e \<notin> set codeExtensions"
  by (auto simp: codeExtensions_def)

lemma slash_notin_table: "47 \<in> set e \<Longrightarrow> e \<notin> set (map codePoints codeExtensions)"
  using slash_notin_codeExtensions by (auto simp: slash_in_codePoints)

lemma artifactKind_slash_ext:
  assumes "47 \<in> set (lastPiece other dotCode p)"
  shows "artifactKind other p = (if reservedBasename (lastPiece other slashCode p) then Code else Text)"
proof -
  let ?e = "lastPiece other dotCode p"
  have "?e \<notin> set (map codePoints codeExtensions)" using assms by (rule slash_notin_table)
  moreover have "?e \<noteq> codePoints s" if "CHR ''/'' \<notin> set s" for s
    using assms that slash_in_codePoints [of s] by auto
  then have "?e \<noteq> codePoints ''html''" "?e \<noteq> codePoints ''htm''" "?e \<noteq> codePoints ''svg''"
    "?e \<noteq> codePoints ''csv''" "?e \<noteq> codePoints ''tsv''" "?e \<noteq> codePoints ''mmd''"
    "?e \<noteq> codePoints ''mermaid''" "?e \<noteq> codePoints ''md''" "?e \<noteq> codePoints ''markdown''"
    by simp_all
  ultimately show ?thesis
    by (simp add: artifactKind_def Let_def reservedBasename_def del: slashCode_eq dotCode_eq)
qed

lemma startsWith_slash: "startsWith p (codePoints ''/'') = (\<exists>r. p = 47 # r)"
  by (cases p) (auto simp: codePoints_def)

lemma rev_split_final:
  "rev p = rev (finalSegment p) @ dropWhile (\<lambda>c. c \<noteq> 47) (rev p)"
  by (simp add: finalSegment_def last_split)

lemma slash_notin_finalSegment: "47 \<notin> set (finalSegment p)"
  by (auto simp: finalSegment_def last_split dest: set_takeWhileD)

lemma ext_of_dotted_basename:
  assumes "46 \<in> set (finalSegment p)"
  shows "lastPiece other dotCode p = lastPiece other dotCode (finalSegment p)"
proof -
  have "takeWhile (\<lambda>c. c \<noteq> 46) (rev (finalSegment p) @ dropWhile (\<lambda>c. c \<noteq> 47) (rev p))
        = takeWhile (\<lambda>c. c \<noteq> 46) (rev (finalSegment p))"
    by (rule takeWhile_append1 [where x = 46]) (use assms in auto)
  then have "takeWhile (\<lambda>c. c \<noteq> 46) (rev p) = takeWhile (\<lambda>c. c \<noteq> 46) (rev (finalSegment p))"
    using rev_split_final [of p] by simp
  then show ?thesis by (simp add: lastPiece_eq)
qed

lemma ext_of_undotted_basename:
  assumes "46 \<notin> set (finalSegment p)" and "startsWith p (codePoints ''/'')"
  shows "47 \<in> set (lastPiece other dotCode p)"
proof -
  let ?d = "dropWhile (\<lambda>c. c \<noteq> 47) (rev p)"
  have "47 \<in> set (rev p)" using assms(2) by (auto simp: startsWith_slash)
  then have "?d \<noteq> []" by (auto simp: dropWhile_eq_Nil_conv)
  then obtain r where d: "?d = 47 # r"
    using hd_dropWhile [of "\<lambda>c. c \<noteq> 47" "rev p"] by (cases ?d) auto
  have "takeWhile (\<lambda>c. c \<noteq> 46) (rev (finalSegment p) @ ?d)
        = rev (finalSegment p) @ takeWhile (\<lambda>c. c \<noteq> 46) ?d"
    by (rule takeWhile_append2) (use assms(1) in auto)
  then have "takeWhile (\<lambda>c. c \<noteq> 46) (rev p) = rev (finalSegment p) @ 47 # takeWhile (\<lambda>c. c \<noteq> 46) r"
    using rev_split_final [of p] d by simp
  then have "47 \<in> set (rev (takeWhile (\<lambda>c. c \<noteq> 46) (rev p)))" by simp
  then show ?thesis unfolding lastPiece_eq dotCode_eq by (rule slash_in_toLowerCase)
qed

lemma artifactKind_by_basename:
  assumes "startsWith p (codePoints ''/'')"
  shows "artifactKind other p =
    (if 46 \<in> set (finalSegment p) then artifactKind other (finalSegment p)
     else if reservedBasename (toLowerCase other (finalSegment p)) then Code else Text)"
proof (cases "46 \<in> set (finalSegment p)")
  case True
  have "takeWhile (\<lambda>c. c \<noteq> 47) (rev (finalSegment p)) = rev (finalSegment p)"
    using slash_notin_finalSegment [of p] by (auto simp: takeWhile_eq_all_conv)
  then have "lastPiece other slashCode (finalSegment p) = lastPiece other slashCode p"
    by (simp add: lastPiece_eq finalSegment_def last_split)
  then show ?thesis using True ext_of_dotted_basename [OF True, of other]
    by (simp add: artifactKind_def del: slashCode_eq dotCode_eq)
next
  case False
  then show ?thesis
    using artifactKind_slash_ext [OF ext_of_undotted_basename [OF False assms]]
    by (simp add: lastPiece_slash del: slashCode_eq)
qed

text \<open>
  C6. A path whose final slash-separated segment, lowercased, is \<open>dockerfile\<close> or
  \<open>makefile\<close>, or begins with \<open>dockerfile.\<close> or \<open>makefile.\<close>, is classified as code,
  whatever its extension: the basename tests come before the extension tests.
\<close>

theorem artifactKind_reserved_basename:
  assumes "reservedBasename (toLowerCase other (finalSegment p))"
  shows "artifactKind other p = Code"
  using assms
  by (auto simp: artifactKind_def Let_def lastPiece_slash reservedBasename_def
      simp del: slashCode_eq dotCode_eq)

theorem artifactKind_reserved_basename_witness:
  "reservedBasename (toLowerCase latinLower (finalSegment (codePoints ''/docs/Dockerfile.md'')))
   \<and> artifactKind latinLower (codePoints ''/docs/Dockerfile.md'') = Code
   \<and> artifactKind latinLower (codePoints ''/docs/notes.md'') = Markdown"
proof -
  have h: "reservedBasename (toLowerCase latinLower (finalSegment (codePoints ''/docs/Dockerfile.md'')))"
    by code_simp
  have m: "artifactKind latinLower (codePoints ''/docs/notes.md'') = Markdown" by code_simp
  show ?thesis using h m artifactKind_reserved_basename [OF h] by simp
qed

text \<open>
  C7. For two absolute paths (each starts with a slash) with the same final segment,
  \<open>artifactKind\<close> gives the same category: the extension is taken from the whole path, but
  a dot in a directory segment only matters when the basename has no dot, and then the
  extension holds a slash and matches no entry of the table.
\<close>

theorem artifactKind_basename_only:
  assumes "startsWith p (codePoints ''/'')" and "startsWith q (codePoints ''/'')"
    and "finalSegment p = finalSegment q"
  shows "artifactKind other p = artifactKind other q"
  using assms by (simp add: artifactKind_by_basename)

theorem artifactKind_basename_only_witness:
  "startsWith (codePoints ''/v1.ts/readme'') (codePoints ''/'')
   \<and> startsWith (codePoints ''/docs/readme'') (codePoints ''/'')
   \<and> finalSegment (codePoints ''/v1.ts/readme'') = finalSegment (codePoints ''/docs/readme'')
   \<and> artifactKind latinLower (codePoints ''/v1.ts/readme'')
       = artifactKind latinLower (codePoints ''/docs/readme'')
   \<and> artifactKind latinLower (codePoints ''/docs/readme'') = Text"
proof -
  have a: "startsWith (codePoints ''/v1.ts/readme'') (codePoints ''/'')" by code_simp
  have b: "startsWith (codePoints ''/docs/readme'') (codePoints ''/'')" by code_simp
  have c: "finalSegment (codePoints ''/v1.ts/readme'') = finalSegment (codePoints ''/docs/readme'')"
    by code_simp
  have d: "artifactKind latinLower (codePoints ''/docs/readme'') = Text" by code_simp
  show ?thesis using a b c d artifactKind_basename_only [OF a b c, of latinLower] by simp
qed

section \<open>The classifier and the case of letters\<close>












section \<open>The tools: responses, validation, and the folder cases\<close>

lemma create_file_response: "wellFormedResponse (response (create_file ops fs args))"
  by (simp add: create_file_def Let_def wellFormedResponse_def hasSuccess_def hasError_def
      errorResponse_def split: option.splits sum.splits)

lemma list_files_response: "wellFormedResponse (response (list_files ops fs args))"
  by (simp add: list_files_def Let_def wellFormedResponse_def hasSuccess_def hasError_def
      errorResponse_def split: option.splits)

lemma delete_file_response: "wellFormedResponse (response (delete_file ops fs args))"
  by (simp add: delete_file_def Let_def wellFormedResponse_def hasSuccess_def hasError_def
      errorResponse_def split: option.splits sum.splits prod.splits)

lemma move_file_response: "wellFormedResponse (response (move_file ops fs args))"
  by (simp add: move_file_def Let_def wellFormedResponse_def hasSuccess_def hasError_def
      errorResponse_def split: option.splits sum.splits prod.splits)

lemma read_file_response: "wellFormedResponse (response (read_file ops fs args))"
  by (simp add: read_file_def Let_def wellFormedResponse_def hasSuccess_def hasError_def
      errorResponse_def split: option.splits)

lemma current_path_response: "wellFormedResponse (response (current_path activeFile fs args))"
  by (simp add: current_path_def wellFormedResponse_def hasSuccess_def hasError_def)

lemma current_file_response: "wellFormedResponse (response (current_file ops activeFile fs args))"
  by (simp add: current_file_def Let_def wellFormedResponse_def hasSuccess_def hasError_def
      errorResponse_def split: option.splits)

text \<open>
  The tool set has the seven tools, and whatever the Store does and the active file is,
  for an argument object whose fields are strings or missing the response of each tool
  has a field \<open>success\<close> holding \<open>true\<close> or a field \<open>error\<close> holding a string, and never
  both. (For an argument object with a truthy field that is no string this fails, see
  above.)
\<close>

lemma artifactsTools_success_xor_error:
  "map fst (artifactsTools ops fs activeFile) =
     [''create_file'', ''list_files'', ''delete_file'', ''move_file'', ''read_file'',
      ''current_path'', ''current_file'']
   \<and> list_all (\<lambda>tool. \<forall>args. wellFormedResponse (response (snd tool args)))
        (artifactsTools ops fs activeFile)"
  by (simp add: artifactsTools_def create_file_response list_files_response
      delete_file_response move_file_response read_file_response current_path_response
      current_file_response)

text \<open>
  C5. When the path argument is empty or does not start with a slash, \<open>create_file\<close>
  answers with an error, makes no call on the Store (so no \<open>createFile\<close>) and leaves
  the Store as it was.
\<close>

theorem create_file_rejects_invalid_path:
  assumes "args ''path'' = Some p" and "p = [] \<or> \<not> startsWith p ''/''"
  shows "hasError (response (create_file ops fs args))
       \<and> \<not> hasSuccess (response (create_file ops fs args))
       \<and> store (create_file ops fs args) = fs
       \<and> calls (create_file ops fs args) = []"
  using assms
  by (auto simp: create_file_def Let_def falsy_def str_def hasError_def hasSuccess_def
      errorResponse_def)

theorem create_file_rejects_invalid_path_witness:
  "[''path'' \<mapsto> ''src/a.ts'', ''content'' \<mapsto> ''x''] ''path'' = Some ''src/a.ts''
   \<and> \<not> startsWith ''src/a.ts'' ''/''
   \<and> response (create_file specStore (Some exampleStore) [''path'' \<mapsto> ''src/a.ts'', ''content'' \<mapsto> ''x''])
       = [(''error'', JString ''Path must start with /'')]
   \<and> store (create_file specStore (Some exampleStore) [''path'' \<mapsto> ''src/a.ts'', ''content'' \<mapsto> ''x''])
       = Some exampleStore
   \<and> calls (create_file specStore (Some exampleStore) [''path'' \<mapsto> ''src/a.ts'', ''content'' \<mapsto> ''x'']) = []"
proof -
  let ?args = "[''path'' \<mapsto> ''src/a.ts'', ''content'' \<mapsto> ''x'']"
  have a: "?args ''path'' = Some ''src/a.ts''" by simp
  have b: "''src/a.ts'' = [] \<or> \<not> startsWith ''src/a.ts'' ''/''" by simp
  have r: "response (create_file specStore (Some exampleStore) ?args)
            = [(''error'', JString ''Path must start with /'')]"
    by (simp add: create_file_def falsy_def str_def errorResponse_def)
  show ?thesis
    using create_file_rejects_invalid_path
      [where args = "?args" and p = "''src/a.ts''" and ops = specStore and fs = "Some exampleStore", OF a b]
      r
    by simp
qed

text \<open>
  C9. When the content argument is missing or the empty string, \<open>create_file\<close> answers
  \<open>Path and content are required\<close>, makes no call on the Store and leaves it as it was,
  whatever the path is: also for a well-formed path with no record, where the
  \<open>createFile\<close> of the spec would create the empty file.
\<close>

theorem create_file_rejects_empty_content:
  assumes "args ''content'' = None \<or> args ''content'' = Some []"
  shows "create_file ops fs args =
           \<lparr>response = [(''error'', JString ''Path and content are required'')],
            store = fs, calls = []\<rparr>"
  using assms by (auto simp: create_file_def Let_def falsy_def errorResponse_def)

theorem create_file_rejects_empty_content_witness:
  "[''path'' \<mapsto> ''/notes/empty.txt'', ''content'' \<mapsto> ''''] ''content'' = Some []
   \<and> Store_getFile exampleStore ''/notes/empty.txt'' = None
   \<and> create_file specStore (Some exampleStore) [''path'' \<mapsto> ''/notes/empty.txt'', ''content'' \<mapsto> '''']
       = \<lparr>response = [(''error'', JString ''Path and content are required'')],
          store = Some exampleStore, calls = []\<rparr>
   \<and> Store_createFile exampleStore ''/notes/empty.txt'' ''''
       = Inr \<lparr>records = records exampleStore
                  @ [\<lparr>path = ''/notes/empty.txt'', content = '''', contentType = Text\<rparr>],
              version = 4\<rparr>"
proof -
  let ?args = "[''path'' \<mapsto> ''/notes/empty.txt'', ''content'' \<mapsto> '''']"
  have a: "?args ''content'' = None \<or> ?args ''content'' = Some []" by simp
  have b: "Store_getFile exampleStore ''/notes/empty.txt'' = None"
    by (simp add: Store_getFile_def exampleStore_def)
  have c: "Store_createFile exampleStore ''/notes/empty.txt'' ''''
       = Inr \<lparr>records = records exampleStore
                  @ [\<lparr>path = ''/notes/empty.txt'', content = '''', contentType = Text\<rparr>],
              version = 4\<rparr>"
    by code_simp
  show ?thesis
    using create_file_rejects_empty_content
      [where args = "?args" and ops = specStore and fs = "Some exampleStore", OF a] b c
    by simp
qed

text \<open>
  C4. For a non-empty path argument, on a Store whose \<open>getFile\<close> finds a record exactly
  when \<open>listFiles\<close> holds one with that path: \<open>delete_file\<close> answers with the not-found
  error if and only if no record has the path and no record's path starts with the path
  followed by a slash. When there is such a record, the tool calls \<open>deleteFile\<close> on the
  path, and the Store and the success of the response are what \<open>deleteFile\<close> returns.
\<close>

theorem delete_file_not_found_iff:
  assumes "args ''path'' = Some p" and "p \<noteq> []"
    and "(getFile ops s p = None) = (\<forall>r \<in> set (listFiles ops s). path r \<noteq> p)"
  shows "((response (delete_file ops (Some s) args)
            = [(''error'', JString (''File or folder not found: '' @ p))])
          = (\<not> (\<exists>r \<in> set (listFiles ops s). path r = p \<or> startsWith (path r) (p @ ''/''))))
       \<and> ((\<exists>r \<in> set (listFiles ops s). path r = p \<or> startsWith (path r) (p @ ''/''))
            \<longrightarrow> calls (delete_file ops (Some s) args) = [GetFile p, ListFiles, DeleteFile p]
              \<and> store (delete_file ops (Some s) args)
                  = Some (case deleteFile ops s p of Inl e \<Rightarrow> s | Inr (ok, s') \<Rightarrow> s')
              \<and> hasSuccess (response (delete_file ops (Some s) args))
                  = (case deleteFile ops s p of Inl e \<Rightarrow> False | Inr (ok, s') \<Rightarrow> ok))"
  using assms
  by (auto simp: delete_file_def Let_def falsy_def str_def errorResponse_def hasSuccess_def
      list_ex_iff split: sum.splits prod.splits)

text \<open>The Store of the spec meets the hypothesis on \<open>getFile\<close>.\<close>

lemma Store_getFile_None:
  "(Store_getFile s p = None) = (\<forall>r \<in> set (Store_listFiles s). path r \<noteq> p)"
  by (auto simp: Store_getFile_def Store_listFiles_def find_None_iff)

theorem delete_file_not_found_iff_witness:
  "[''path'' \<mapsto> ''/src''] ''path'' = Some ''/src'' \<and> ''/src'' \<noteq> []
   \<and> response (delete_file specStore (Some exampleStore) [''path'' \<mapsto> ''/src''])
       \<noteq> [(''error'', JString (''File or folder not found: '' @ ''/src''))]
   \<and> calls (delete_file specStore (Some exampleStore) [''path'' \<mapsto> ''/src''])
       = [GetFile ''/src'', ListFiles, DeleteFile ''/src'']
   \<and> store (delete_file specStore (Some exampleStore) [''path'' \<mapsto> ''/src''])
       = Some \<lparr>records = [\<lparr>path = ''/src2/c.ts'', content = ''ccc'', contentType = Code\<rparr>],
                version = 4\<rparr>
   \<and> hasSuccess (response (delete_file specStore (Some exampleStore) [''path'' \<mapsto> ''/src'']))"
proof -
  let ?args = "[''path'' \<mapsto> ''/src'']"
  have a: "?args ''path'' = Some ''/src''" by simp
  have b: "''/src'' \<noteq> []" by simp
  have c: "(getFile specStore exampleStore ''/src'' = None)
           = (\<forall>r \<in> set (listFiles specStore exampleStore). path r \<noteq> ''/src'')"
    using Store_getFile_None [of exampleStore "''/src''"] by (simp add: specStore_def)
  have d: "\<exists>r \<in> set (listFiles specStore exampleStore).
             path r = ''/src'' \<or> startsWith (path r) (''/src'' @ ''/'')"
    by (simp add: specStore_def Store_listFiles_def exampleStore_def)
  have e: "deleteFile specStore exampleStore ''/src''
           = Inr (True, \<lparr>records = [\<lparr>path = ''/src2/c.ts'', content = ''ccc'', contentType = Code\<rparr>],
                version = 4\<rparr>)"
    by (simp add: specStore_def Store_deleteFile_def Store_getFile_def exampleStore_def
        underFolder_def)
  show ?thesis
    using delete_file_not_found_iff
      [where args = "?args" and p = "''/src''" and ops = specStore and s = exampleStore, OF a b c]
      d e
    by simp
qed

text \<open>
  C1. \<open>list_files\<close> filters with \<open>file.path.startsWith(directory)\<close>, a comparison of raw
  strings: for the directory \<open>/src\<close> it returns the record at \<open>/src2/c.ts\<close> too, which is
  not in that directory, and for \<open>/src/\<close> it returns another set of records.
\<close>

theorem list_files_raw_prefix_example:
  "response (list_files specStore (Some exampleStore) [''directory'' \<mapsto> ''/src''])
     = [(''success'', JBool True),
        (''files'', JArray
           [JObject [(''path'', JString ''/src/a.ts''), (''size'', JNumber 1), (''contentType'', JString ''code'')],
            JObject [(''path'', JString ''/src/b.ts''), (''size'', JNumber 2), (''contentType'', JString ''code'')],
            JObject [(''path'', JString ''/src2/c.ts''), (''size'', JNumber 3), (''contentType'', JString ''code'')]]),
        (''count'', JNumber 3)]
   \<and> \<not> inDirectory ''/src'' ''/src2/c.ts''
   \<and> response (list_files specStore (Some exampleStore) [''directory'' \<mapsto> ''/src/''])
     = [(''success'', JBool True),
        (''files'', JArray
           [JObject [(''path'', JString ''/src/a.ts''), (''size'', JNumber 1), (''contentType'', JString ''code'')],
            JObject [(''path'', JString ''/src/b.ts''), (''size'', JNumber 2), (''contentType'', JString ''code'')]]),
        (''count'', JNumber 2)]"
  by (simp add: list_files_def falsy_def str_def specStore_def Store_listFiles_def
      exampleStore_def fileListEntry_def kindName_def inDirectory_def)

text \<open>
  C2. \<open>move_file\<close> looks the source up with \<open>getFile\<close> and answers
  \<open>Source file not found\<close> when there is no record at that exact path: for the folder
  \<open>/src\<close> it never calls \<open>renameFile\<close>, which would have moved the subtree.
\<close>

theorem move_file_folder_example:
  "move_file specStore (Some exampleStore) [''fromPath'' \<mapsto> ''/src'', ''toPath'' \<mapsto> ''/lib'']
     = \<lparr>response = [(''error'', JString ''Source file not found: /src'')],
        store = Some exampleStore, calls = [GetFile ''/src'']\<rparr>
   \<and> Store_getFile exampleStore ''/src'' = None
   \<and> Store_renameFile exampleStore ''/src'' ''/lib''
     = Inr (True,
         \<lparr>records = [\<lparr>path = ''/lib/a.ts'', content = ''a'', contentType = Code\<rparr>,
                   \<lparr>path = ''/lib/b.ts'', content = ''bb'', contentType = Code\<rparr>,
                   \<lparr>path = ''/src2/c.ts'', content = ''ccc'', contentType = Code\<rparr>],
          version = 4\<rparr>)"
  by (simp add: move_file_def falsy_def str_def specStore_def Store_getFile_def
      Store_renameFile_def exampleStore_def errorResponse_def underFolder_def)

section \<open>The forest buildFileTree returns\<close>

subsection \<open>Sorting with a consistent comparator\<close>

lemma mset_insertSorted: "mset (insertSorted cmp x ys) = add_mset x (mset ys)"
  by (induction ys) auto

lemma mset_sortBy_aux: "mset (foldl (\<lambda>acc x. insertSorted cmp x acc) acc xs) = mset acc + mset xs"
  by (induction xs arbitrary: acc) (auto simp: mset_insertSorted)

lemma mset_sortBy: "mset (sortBy cmp xs) = mset xs"
  by (simp add: sortBy_def mset_sortBy_aux)

lemma set_sortBy: "set (sortBy cmp xs) = set xs"
  using mset_sortBy [of cmp xs] by (metis set_mset_mset)

lemma set_insertSorted: "set (insertSorted cmp x ys) = insert x (set ys)"
  using mset_insertSorted [of cmp x ys] by (metis set_mset_mset set_mset_add_mset_insert)

lemma sorted_insertSorted:
  assumes "consistentComparator cmp" and "sorted_wrt (\<lambda>a b. cmp a b \<le> 0) ys"
  shows "sorted_wrt (\<lambda>a b. cmp a b \<le> 0) (insertSorted cmp x ys)"
  using assms(2)
proof (induction ys)
  case Nil
  show ?case by simp
next
  case (Cons y ys)
  have anti: "\<And>a b. (cmp a b < 0) = (cmp b a > 0)"
    and trans: "\<And>a b c. cmp a b \<le> 0 \<Longrightarrow> cmp b c \<le> 0 \<Longrightarrow> cmp a c \<le> 0"
    using assms(1) unfolding consistentComparator_def by blast+
  show ?case
  proof (cases "cmp x y < 0")
    case True
    then have xy: "cmp x y \<le> 0" by simp
    have "\<forall>z \<in> set ys. cmp x z \<le> 0"
      using Cons.prems xy trans by auto
    then show ?thesis using True Cons.prems xy by simp
  next
    case False
    then have "\<not> cmp y x > 0" using anti [of x y] by simp
    then have yx: "cmp y x \<le> 0" by simp
    show ?thesis
      using False Cons yx by (auto simp: set_insertSorted)
  qed
qed

lemma sorted_sortBy_aux:
  assumes "consistentComparator cmp" and "sorted_wrt (\<lambda>a b. cmp a b \<le> 0) acc"
  shows "sorted_wrt (\<lambda>a b. cmp a b \<le> 0) (foldl (\<lambda>acc x. insertSorted cmp x acc) acc xs)"
  using assms(2) by (induction xs arbitrary: acc) (auto simp: sorted_insertSorted [OF assms(1)])

lemma sorted_sortBy:
  "consistentComparator cmp \<Longrightarrow> sorted_wrt (\<lambda>a b. cmp a b \<le> 0) (sortBy cmp xs)"
  by (simp add: sortBy_def sorted_sortBy_aux)

lemma consistent_compareNodes:
  assumes "consistentComparator lc"
  shows "consistentComparator (compareNodes lc)"
proof -
  have anti: "\<And>a b. (lc a b < 0) = (lc b a > 0)"
    and trans: "\<And>a b c. lc a b \<le> 0 \<Longrightarrow> lc b c \<le> 0 \<Longrightarrow> lc a c \<le> 0"
    using assms unfolding consistentComparator_def by blast+
  have t: "nodeType n = FileType \<or> nodeType n = FolderType" for n
    by (cases "nodeType n") auto
  have 1: "(compareNodes lc a b < 0) = (compareNodes lc b a > 0)" for a b
    using t [of a] t [of b] anti [of "name a" "name b"] by (auto simp: compareNodes_def)
  have 2: "compareNodes lc a c \<le> 0" if "compareNodes lc a b \<le> 0" "compareNodes lc b c \<le> 0" for a b c
    using that t [of a] t [of b] t [of c] trans [of "name a" "name b" "name c"]
    by (auto simp: compareNodes_def split: if_splits)
  show ?thesis unfolding consistentComparator_def using 1 2 by blast
qed

subsection \<open>A level sorted by the comparator is ordered\<close>

lemma sorted_folders_first:
  assumes "sorted_wrt (\<lambda>a b. compareNodes lc a b \<le> 0) level"
  shows "level = filter (\<lambda>n. nodeType n = FolderType) level @ filter (\<lambda>n. nodeType n = FileType) level"
  using assms
proof (induction level)
  case Nil
  show ?case by simp
next
  case (Cons n ns)
  have t: "nodeType m = FileType \<or> nodeType m = FolderType" for m
    by (cases "nodeType m") auto
  show ?case
  proof (cases "nodeType n")
    case FolderType
    then show ?thesis using Cons by simp
  next
    case FileType
    have "\<forall>m \<in> set ns. nodeType m = FileType"
    proof
      fix m assume "m \<in> set ns"
      then have "compareNodes lc n m \<le> 0" using Cons.prems by simp
      then show "nodeType m = FileType"
        using FileType t [of m] by (auto simp: compareNodes_def split: if_splits)
    qed
    then have "filter (\<lambda>n. nodeType n = FolderType) ns = []" "filter (\<lambda>n. nodeType n = FileType) ns = ns"
      by (auto simp: filter_empty_conv filter_id_conv)
    then show ?thesis using FileType by simp
  qed
qed

lemma sorted_same_type:
  assumes "sorted_wrt (\<lambda>a b. compareNodes lc a b \<le> 0) level"
  shows "sorted_wrt (\<lambda>a b. lc (name a) (name b) \<le> 0) (filter (\<lambda>n. nodeType n = t) level)"
proof -
  have "sorted_wrt (\<lambda>a b. compareNodes lc a b \<le> 0) (filter (\<lambda>n. nodeType n = t) level)"
    using assms by (rule sorted_wrt_filter)
  then show ?thesis
    by (rule sorted_wrt_mono_rel [rotated]) (auto simp: compareNodes_def split: if_splits)
qed

lemma levelOrdered_sorted:
  "sorted_wrt (\<lambda>a b. compareNodes lc a b \<le> 0) level \<Longrightarrow> levelOrdered lc level"
  unfolding levelOrdered_def Let_def
  using sorted_folders_first [of lc level] sorted_same_type [of lc level] by blast

subsection \<open>Paths and their segments\<close>

lemma joinPath_simps [simp]:
  "joinPath [] = []"
  "joinPath (s # segs) = CHR ''/'' # s @ joinPath segs"
  "joinPath (xs @ ys) = joinPath xs @ joinPath ys"
  by (simp_all add: joinPath_def)

lemma segsOK_simps [simp]:
  "segsOK []"
  "segsOK (s # segs) = (s \<noteq> [] \<and> CHR ''/'' \<notin> set s \<and> segsOK segs)"
  "segsOK (xs @ ys) = (segsOK xs \<and> segsOK ys)"
  by (auto simp: segsOK_def)

lemma joinPath_Nil_iff [simp]: "(joinPath segs = []) = (segs = [])"
  by (cases segs) auto

lemma joinPath_head: "joinPath segs = [] \<or> hd (joinPath segs) = CHR ''/''"
  by (cases segs) auto

lemma seg_prefix_unique:
  assumes "CHR ''/'' \<notin> set x" and "CHR ''/'' \<notin> set y"
    and "x @ joinPath xs = y @ joinPath ys"
  shows "x = y \<and> joinPath xs = joinPath ys"
proof -
  have tw: "takeWhile (\<lambda>c. c \<noteq> CHR ''/'') (s @ joinPath segs) = s" if "CHR ''/'' \<notin> set s" for s segs
  proof (cases segs)
    case Nil
    then show ?thesis using that by (auto simp: takeWhile_eq_all_conv)
  next
    case (Cons a as)
    have "takeWhile (\<lambda>c. c \<noteq> CHR ''/'') (s @ CHR ''/'' # a @ joinPath as) = s"
      using that by (subst takeWhile_append2) auto
    then show ?thesis using Cons by simp
  qed
  have "x = y" using tw [OF assms(1), of xs] tw [OF assms(2), of ys] assms(3) by simp
  then show ?thesis using assms(3) by simp
qed

lemma joinPath_inject:
  "segsOK xs \<Longrightarrow> segsOK ys \<Longrightarrow> joinPath xs = joinPath ys \<Longrightarrow> xs = ys"
proof (induction xs arbitrary: ys)
  case Nil
  then show ?case by (cases ys) auto
next
  case (Cons x xs)
  show ?case
  proof (cases ys)
    case Nil
    then show ?thesis using Cons.prems by simp
  next
    case (Cons y ys')
    have "x @ joinPath xs = y @ joinPath ys'" using Cons.prems(3) Cons by simp
    then have "x = y \<and> joinPath xs = joinPath ys'"
      using Cons.prems(1,2) Cons by (intro seg_prefix_unique) auto
    then show ?thesis using Cons.IH [of ys'] Cons.prems(1,2) Cons by simp
  qed
qed

lemma joinPath_append_inject:
  assumes "segsOK xs" and "segsOK ys" and "joinPath (cs @ xs) = joinPath (cs @ ys)"
  shows "xs = ys"
  using assms by (auto intro: joinPath_inject)

lemma split_no_sep: "s \<in> set (split sep whole) \<Longrightarrow> sep \<notin> set s"
proof (induction whole arbitrary: s)
  case Nil
  then show ?case by simp
next
  case (Cons c cs)
  have ne: "split sep cs \<noteq> []" by (rule split_not_Nil)
  show ?case
  proof (cases "c = sep")
    case True
    then show ?thesis using Cons by auto
  next
    case False
    then have "s = c # hd (split sep cs) \<or> s \<in> set (tl (split sep cs))"
      using Cons.prems by (auto simp: Let_def)
    then show ?thesis
      using Cons.IH ne False by (auto dest: list.set_sel)
  qed
qed

lemma joinPath_split: "joinPath (split CHR ''/'' s) = CHR ''/'' # s"
proof (induction s)
  case Nil
  show ?case by simp
next
  case (Cons c cs)
  obtain r rs where r: "split CHR ''/'' cs = r # rs"
    using split_not_Nil [of "CHR ''/''" cs] by (cases "split CHR ''/'' cs") auto
  show ?case using Cons r by (auto simp: Let_def)
qed

lemma segsOK_pathParts: "segsOK (pathParts p)"
  by (auto simp: segsOK_def pathParts_def dest: split_no_sep)

lemma wellFormed_pathParts:
  assumes "wellFormedPath p"
  shows "pathParts p \<noteq> [] \<and> joinPath (pathParts p) = p"
proof -
  obtain r where p: "p = CHR ''/'' # r" using assms by (cases p) (auto simp: wellFormedPath_def)
  have ne: "[] \<notin> set (split CHR ''/'' r)" using assms p by (simp add: wellFormedPath_def)
  then have "filter (\<lambda>part. length part > 0) (split CHR ''/'' r) = split CHR ''/'' r"
    by (auto simp: filter_id_conv)
  then have pp: "pathParts p = split CHR ''/'' r" by (simp add: pathParts_def p)
  show ?thesis using pp joinPath_split [of r] split_not_Nil [of "CHR ''/''" r] p by simp
qed

lemma startsWith_iff: "startsWith s p = (\<exists>t. s = p @ t)"
  by (induction s p rule: startsWith.induct) auto

lemma dir_prefix_iff:
  assumes "segsOK parts"
  shows "(d \<noteq> [] \<and> underFolder d (joinPath parts))
         = (\<exists>k. 0 < k \<and> k < length parts \<and> d = joinPath (take k parts))"
  using assms
proof (induction parts arbitrary: d)
  case Nil
  show ?case by (auto simp: underFolder_def startsWith_iff)
next
  case (Cons s ps)
  show ?case
  proof
    assume L: "d \<noteq> [] \<and> underFolder d (joinPath (s # ps))"
    then obtain rest where eq: "CHR ''/'' # s @ joinPath ps = d @ CHR ''/'' # rest"
      by (auto simp: underFolder_def startsWith_iff)
    obtain d' where d: "d = CHR ''/'' # d'" using L eq by (cases d) auto
    have eq': "s @ joinPath ps = d' @ CHR ''/'' # rest" using eq d by simp
    have "\<exists>d''. d' = s @ d''"
    proof (rule ccontr)
      assume n: "\<not> (\<exists>d''. d' = s @ d'')"
      from eq' obtain u where "(s = d' @ u \<and> u @ joinPath ps = CHR ''/'' # rest) \<or> (s @ u = d' \<and> joinPath ps = u @ CHR ''/'' # rest)"
        by (auto simp: append_eq_append_conv2)
      then have "s = d' @ u" "u @ joinPath ps = CHR ''/'' # rest" using n by auto
      moreover have "u \<noteq> []" using n calculation by auto
      ultimately have "CHR ''/'' \<in> set s" by (cases u) auto
      then show False using Cons.prems by simp
    qed
    then obtain d'' where d': "d' = s @ d''" by blast
    have eq'': "joinPath ps = d'' @ CHR ''/'' # rest" using eq' d' by simp
    show "\<exists>k. 0 < k \<and> k < length (s # ps) \<and> d = joinPath (take k (s # ps))"
    proof (cases "d'' = []")
      case True
      have "ps \<noteq> []" using eq'' by auto
      then have "0 < (1::nat) \<and> 1 < length (s # ps) \<and> d = joinPath (take 1 (s # ps))"
        using d d' True by (cases ps) auto
      then show ?thesis by blast
    next
      case False
      have "d'' \<noteq> [] \<and> underFolder d'' (joinPath ps)"
        using False eq'' by (auto simp: underFolder_def startsWith_iff)
      then obtain k where "0 < k" "k < length ps" "d'' = joinPath (take k ps)"
        using Cons.IH [of d''] Cons.prems by auto
      then have "0 < Suc k \<and> Suc k < length (s # ps) \<and> d = joinPath (take (Suc k) (s # ps))"
        using d d' by simp
      then show ?thesis by blast
    qed
  next
    assume "\<exists>k. 0 < k \<and> k < length (s # ps) \<and> d = joinPath (take k (s # ps))"
    then obtain k where k: "0 < k" "k < length (s # ps)" "d = joinPath (take k (s # ps))" by blast
    have "joinPath (s # ps) = joinPath (take k (s # ps)) @ joinPath (drop k (s # ps))"
      by (metis append_take_drop_id joinPath_simps(3))
    moreover have "drop k (s # ps) \<noteq> []" using k by simp
    then obtain x xs where "drop k (s # ps) = x # xs" by (cases "drop k (s # ps)") auto
    ultimately have "joinPath (s # ps) = d @ CHR ''/'' # x @ joinPath xs" using k by simp
    moreover have "d \<noteq> []" using k by (cases k) auto
    ultimately show "d \<noteq> [] \<and> underFolder d (joinPath (s # ps))"
      by (auto simp: underFolder_def startsWith_iff)
  qed
qed

subsection \<open>The shape of the tree and the keys of the folder map\<close>

lemma nodes_eq: "nodes n = n # forestNodes (children n)"
  by (cases n) (simp add: forestNodes_def)

lemma forestNodes_simps [simp]:
  "forestNodes [] = []"
  "forestNodes (n # ns) = n # forestNodes (children n) @ forestNodes ns"
  "forestNodes (xs @ ys) = forestNodes xs @ forestNodes ys"
  by (simp_all add: forestNodes_def nodes_eq [unfolded forestNodes_def])

lemma folderNodes_simps [simp]:
  "folderNodes [] = []"
  "folderNodes (n # ns) =
     (if nodeType n = FolderType then [n] else []) @ folderNodes (children n) @ folderNodes ns"
  "folderNodes (xs @ ys) = folderNodes xs @ folderNodes ys"
  by (simp_all add: folderNodes_def)

lemma fileNodes_simps [simp]:
  "fileNodes [] = []"
  "fileNodes (n # ns) =
     (if nodeType n = FileType then [n] else []) @ fileNodes (children n) @ fileNodes ns"
  "fileNodes (xs @ ys) = fileNodes xs @ fileNodes ys"
  by (simp_all add: fileNodes_def)

lemma folderPaths_simps [simp]:
  "folderPaths [] = []"
  "folderPaths (n # ns) =
     (if nodeType n = FolderType then [nodePath n] else []) @ folderPaths (children n) @ folderPaths ns"
  "folderPaths (xs @ ys) = folderPaths xs @ folderPaths ys"
  by (simp_all add: folderPaths_def)

lemma folder_in_folderPaths:
  "n \<in> set level \<Longrightarrow> nodeType n = FolderType \<Longrightarrow> nodePath n \<in> set (folderPaths level)"
  by (induction level) auto

lemma mset_forestNodes:
  "mset (forestNodes level) = (\<Sum>n \<in># mset level. mset (nodes n))"
  by (induction level) (simp_all add: nodes_eq)

lemma mset_forestNodes_cong:
  "mset xs = mset ys \<Longrightarrow> mset (forestNodes xs) = mset (forestNodes ys)"
  by (simp add: mset_forestNodes)

lemma mset_folderPaths_cong:
  assumes "mset xs = mset ys"
  shows "mset (folderPaths xs) = mset (folderPaths ys)"
proof -
  have "mset (forestNodes xs) = mset (forestNodes ys)"
    using assms by (rule mset_forestNodes_cong)
  then have "image_mset nodePath (filter_mset (\<lambda>n. nodeType n = FolderType) (mset (forestNodes xs)))
           = image_mset nodePath (filter_mset (\<lambda>n. nodeType n = FolderType) (mset (forestNodes ys)))"
    by (rule arg_cong)
  then show ?thesis by (simp add: folderPaths_def folderNodes_def)
qed

lemma mset_fileNodes_cong:
  assumes "mset xs = mset ys"
  shows "mset (fileNodes xs) = mset (fileNodes ys)"
proof -
  have "mset (forestNodes xs) = mset (forestNodes ys)"
    using assms by (rule mset_forestNodes_cong)
  then have "filter_mset (\<lambda>n. nodeType n = FileType) (mset (forestNodes xs))
           = filter_mset (\<lambda>n. nodeType n = FileType) (mset (forestNodes ys))"
    by (rule arg_cong)
  then show ?thesis by (simp add: fileNodes_def)
qed

lemma wfNode_folder:
  assumes "wfNode lc cs n" and "nodeType n = FolderType"
  shows "name n \<noteq> [] \<and> CHR ''/'' \<notin> set (name n) \<and> nodePath n = joinPath (cs @ [name n])
         \<and> wfLevel lc (cs @ [name n]) (children n)"
  using assms by (cases n) (auto simp: wfLevel_def)

lemma wfNode_file: "wfNode lc cs n \<Longrightarrow> nodeType n = FileType \<Longrightarrow> children n = []"
  by (cases n) auto

lemma wfLevel_Nil [simp]: "wfLevel lc cs []"
  by (simp add: wfLevel_def)

lemma wfLevel_parts:
  "wfLevel lc cs (xs @ n # ys) \<Longrightarrow> wfLevel lc cs xs \<and> wfNode lc cs n \<and> wfLevel lc cs ys"
  by (auto simp: wfLevel_def sorted_wrt_append)

lemma folder_node_form:
  "wfNode lc cs n \<Longrightarrow> m \<in> set (nodes n) \<Longrightarrow> nodeType m = FolderType
   \<Longrightarrow> \<exists>more. segsOK (name n # more) \<and> nodePath m = joinPath (cs @ name n # more)"
proof (induction n arbitrary: cs)
  case (FileNode nm p t ch f)
  show ?case
  proof (cases "m = FileNode nm p t ch f")
    case True
    then have "segsOK [nm] \<and> nodePath m = joinPath (cs @ [nm])"
      using FileNode.prems by (auto split: if_splits)
    then show ?thesis by auto
  next
    case False
    then obtain c where c: "c \<in> set ch" "m \<in> set (nodes c)"
      using FileNode.prems(2) by auto
    then have folder: "t \<noteq> FileType" using FileNode.prems(1) by auto
    then have wf: "wfNode lc (cs @ [nm]) c" and nm: "nm \<noteq> []" "CHR ''/'' \<notin> set nm"
      using FileNode.prems(1) c(1) by auto
    obtain more where "segsOK (name c # more)" "nodePath m = joinPath ((cs @ [nm]) @ name c # more)"
      using FileNode.IH [OF c(1) wf c(2) FileNode.prems(3)] by blast
    then have "segsOK (nm # name c # more) \<and> nodePath m = joinPath (cs @ nm # name c # more)"
      using nm by simp
    then show ?thesis by (metis FileNode.sel(1))
  qed
qed

lemma folderPaths_form:
  assumes "wfLevel lc cs level" and "q \<in> set (folderPaths level)"
  shows "\<exists>n \<in> set level. \<exists>more. nodeType n = FolderType \<and> segsOK (name n # more)
           \<and> q = joinPath (cs @ name n # more)
           \<and> (if more = [] then q = nodePath n else q \<in> set (folderPaths (children n)))"
proof -
  obtain m where m: "m \<in> set (forestNodes level)" "nodeType m = FolderType" "q = nodePath m"
    using assms(2) by (auto simp: folderPaths_def folderNodes_def)
  then obtain n where n: "n \<in> set level" "m \<in> set (nodes n)"
    by (auto simp: forestNodes_def)
  have wf: "wfNode lc cs n" using assms(1) n(1) by (simp add: wfLevel_def)
  show ?thesis
  proof (cases "m = n")
    case True
    then have "nodeType n = FolderType \<and> segsOK (name n # []) \<and> q = joinPath (cs @ name n # [])
               \<and> q = nodePath n"
      using wfNode_folder [OF wf] m by simp
    then show ?thesis using n(1) by (intro bexI [of _ n] exI [of _ "[]"]) auto
  next
    case False
    then have in_ch: "m \<in> set (forestNodes (children n))" using n(2) by (simp add: nodes_eq)
    then have folder: "nodeType n = FolderType"
      using wfNode_file [OF wf] by (cases "nodeType n") auto
    have wfc: "wfLevel lc (cs @ [name n]) (children n)" and nm: "segsOK [name n]"
      using wfNode_folder [OF wf folder] by auto
    obtain c where c: "c \<in> set (children n)" "m \<in> set (nodes c)"
      using in_ch by (auto simp: forestNodes_def)
    have "wfNode lc (cs @ [name n]) c" using wfc c(1) by (simp add: wfLevel_def)
    then obtain more where more: "segsOK (name c # more)"
        "nodePath m = joinPath ((cs @ [name n]) @ name c # more)"
      using folder_node_form [OF _ c(2) m(2)] by blast
    have "q \<in> set (folderPaths (children n))"
      using in_ch m by (auto simp: folderPaths_def folderNodes_def)
    then have "nodeType n = FolderType \<and> segsOK (name n # name c # more)
               \<and> q = joinPath (cs @ name n # name c # more)
               \<and> q \<in> set (folderPaths (children n))"
      using folder nm more m(3) by simp
    then show ?thesis using n(1) by (intro bexI [of _ n] exI [of _ "name c # more"]) auto
  qed
qed

lemma folderPaths_below:
  assumes "wfLevel lc cs level"
  shows "set (folderPaths level) \<subseteq> below cs"
proof
  fix q assume "q \<in> set (folderPaths level)"
  then obtain n more where "segsOK (name n # more)" "q = joinPath (cs @ name n # more)"
    using folderPaths_form [OF assms] by blast
  then show "q \<in> below cs" unfolding below_def by blast
qed

lemma folder_at_level:
  assumes "wfLevel lc cs level" and "joinPath (cs @ [a]) \<in> set (folderPaths level)"
    and "segsOK [a]"
  shows "\<exists>n \<in> set level. nodeType n = FolderType \<and> nodePath n = joinPath (cs @ [a])"
proof -
  obtain n more where n: "n \<in> set level" "nodeType n = FolderType" "segsOK (name n # more)"
      "joinPath (cs @ [a]) = joinPath (cs @ name n # more)"
      "if more = [] then joinPath (cs @ [a]) = nodePath n
       else joinPath (cs @ [a]) \<in> set (folderPaths (children n))"
    using folderPaths_form [OF assms(1,2)] by blast
  have "[a] = name n # more"
    using joinPath_append_inject [OF assms(3) n(3) n(4)] .
  then show ?thesis using n by auto
qed

lemma findFolder_Some:
  "findFolder p level = Some (before, n, after)
   \<Longrightarrow> level = before @ n # after \<and> nodeType n = FolderType \<and> nodePath n = p"
  by (induction level arbitrary: before) (auto split: if_splits option.splits)

lemma findFolder_None:
  "findFolder p level = None \<Longrightarrow> n \<in> set level \<Longrightarrow> \<not> (nodeType n = FolderType \<and> nodePath n = p)"
proof (induction level)
  case Nil
  then show ?case by simp
next
  case (Cons x xs)
  have nx: "\<not> (nodeType x = FolderType \<and> nodePath x = p)"
    using Cons.prems(1) by (auto split: if_splits)
  then have "findFolder p xs = None"
    using Cons.prems(1) by (cases "findFolder p xs") auto
  then show ?case using Cons nx by auto
qed

lemma findFolder_exists:
  assumes "\<exists>n \<in> set level. nodeType n = FolderType \<and> nodePath n = p"
  shows "\<exists>before n after. findFolder p level = Some (before, n, after)"
proof (cases "findFolder p level")
  case None
  then show ?thesis using assms findFolder_None by blast
next
  case (Some r)
  then show ?thesis by (cases r) auto
qed

lemma below_extend: "segsOK [a] \<Longrightarrow> below (cs @ [a]) \<subseteq> below cs"
proof
  fix q assume a: "segsOK [a]" and "q \<in> below (cs @ [a])"
  then obtain more where "more \<noteq> []" "segsOK more" "q = joinPath ((cs @ [a]) @ more)"
    unfolding below_def by blast
  then have "a # more \<noteq> [] \<and> segsOK (a # more) \<and> q = joinPath (cs @ a # more)"
    using a by simp
  then show "q \<in> below cs" unfolding below_def by blast
qed

text \<open>Descent: the entries of the folder map below a folder are the folders of its subtree.\<close>

lemma linked_descend:
  assumes wf: "wfLevel lc cs (before @ n # after)"
    and dist: "distinct (folderPaths (before @ n # after))"
    and linked: "set (folderPaths (before @ n # after)) = fm \<inter> below cs"
    and folder: "nodeType n = FolderType"
  shows "set (folderPaths (children n)) = fm \<inter> below (cs @ [name n])"
proof -
  let ?a = "name n"
  have wfn: "wfNode lc cs n" and wfb: "wfLevel lc cs before" and wfa: "wfLevel lc cs after"
    using wfLevel_parts [OF wf] by auto
  have a: "segsOK [?a]" and pn: "nodePath n = joinPath (cs @ [?a])"
    and wfc: "wfLevel lc (cs @ [?a]) (children n)"
    using wfNode_folder [OF wfn folder] by auto
  have sibling: False
    if q: "q \<in> set (folderPaths side)" "q = joinPath ((cs @ [?a]) @ more)" "segsOK more"
      and side: "wfLevel lc cs side" "nodePath n \<notin> set (folderPaths side)"
    for q side more
  proof -
    obtain n' more' where n': "n' \<in> set side" "nodeType n' = FolderType"
        "segsOK (name n' # more')" "q = joinPath (cs @ name n' # more')"
      using folderPaths_form [OF side(1) q(1)] by blast
    have "?a # more = name n' # more'"
      using joinPath_append_inject [of "?a # more" "name n' # more'" cs] a q(2,3) n'(3,4) by simp
    then have "name n' = ?a" by simp
    moreover have "wfNode lc cs n'" using side(1) n'(1) by (simp add: wfLevel_def)
    ultimately have "nodePath n' = nodePath n"
      using wfNode_folder [OF _ n'(2)] pn by simp
    moreover have "nodePath n' \<in> set (folderPaths side)"
      using n'(1,2) by (rule folder_in_folderPaths)
    ultimately show False using side(2) by simp
  qed
  show ?thesis
  proof (intro equalityI subsetI)
    fix q assume q: "q \<in> set (folderPaths (children n))"
    then have "q \<in> fm" using linked folder by auto
    moreover have "q \<in> below (cs @ [?a])" using folderPaths_below [OF wfc] q by blast
    ultimately show "q \<in> fm \<inter> below (cs @ [?a])" by simp
  next
    fix q assume q: "q \<in> fm \<inter> below (cs @ [?a])"
    then obtain more where more: "more \<noteq> []" "segsOK more" "q = joinPath ((cs @ [?a]) @ more)"
      unfolding below_def by blast
    have "q \<in> below cs" using below_extend [OF a] q by blast
    then have "q \<in> set (folderPaths (before @ n # after))" using linked q by simp
    then consider "q \<in> set (folderPaths before)" | "q = nodePath n"
      | "q \<in> set (folderPaths (children n))" | "q \<in> set (folderPaths after)"
      using folder by auto
    then show "q \<in> set (folderPaths (children n))"
    proof cases
      case 1
      have "nodePath n \<notin> set (folderPaths before)" using dist folder by auto
      then show ?thesis using sibling [OF 1 more(3) more(2) wfb] by simp
    next
      case 2
      then have "joinPath (cs @ [?a]) = joinPath (cs @ ?a # more)" using pn more(3) by simp
      then have "[?a] = ?a # more"
        using joinPath_append_inject [of "[?a]" "?a # more" cs] a more(2) by simp
      then show ?thesis using more(1) by simp
    next
      case 3
      then show ?thesis .
    next
      case 4
      have "nodePath n \<notin> set (folderPaths after)" using dist folder by auto
      then show ?thesis using sibling [OF 4 more(3) more(2) wfa] by simp
    qed
  qed
qed

subsection \<open>The invariant is kept by each step\<close>

lemma compareNodes_same_key:
  "name a = name a' \<Longrightarrow> nodeType a = nodeType a'
   \<Longrightarrow> compareNodes lc a b = compareNodes lc a' b \<and> compareNodes lc b a = compareNodes lc b a'"
  by (simp add: compareNodes_def)

lemma wfLevel_replace:
  assumes "wfLevel lc cs (before @ n # after)" and "nodeType n = FolderType"
    and "wfLevel lc (cs @ [name n]) ch'"
  shows "wfLevel lc cs (before @ FileNode (name n) (nodePath n) (nodeType n) ch' (nodeFile n) # after)"
proof -
  let ?n' = "FileNode (name n) (nodePath n) (nodeType n) ch' (nodeFile n)"
  have key: "name ?n' = name n" "nodeType ?n' = nodeType n" by simp_all
  have cmp: "compareNodes lc ?n' b = compareNodes lc n b" "compareNodes lc b ?n' = compareNodes lc b n" for b
    using compareNodes_same_key [OF key] by simp_all
  have wfn: "wfNode lc cs n" using wfLevel_parts [OF assms(1)] by simp
  have "wfNode lc cs ?n'"
    using wfNode_folder [OF wfn assms(2)] assms(2,3) by (simp add: wfLevel_def)
  moreover have "sorted_wrt (\<lambda>a b. compareNodes lc a b \<le> 0) (before @ ?n' # after)"
    using assms(1) by (simp add: wfLevel_def sorted_wrt_append cmp)
  ultimately show ?thesis using assms(1) by (auto simp: wfLevel_def)
qed

lemma treeInv_ascend:
  assumes inv: "treeInv lc cs (before @ n # after) fm1"
    and folder: "nodeType n = FolderType"
    and inv': "treeInv lc (cs @ [name n]) ch' fm2"
    and grow: "fm1 \<subseteq> fm2" "fm2 - fm1 \<subseteq> below (cs @ [name n])"
  shows "treeInv lc cs (before @ FileNode (name n) (nodePath n) (nodeType n) ch' (nodeFile n) # after) fm2"
proof -
  let ?n' = "FileNode (name n) (nodePath n) (nodeType n) ch' (nodeFile n)"
  have wf: "wfLevel lc cs (before @ n # after)"
    and dist: "distinct (folderPaths (before @ n # after))"
    and linked: "set (folderPaths (before @ n # after)) = fm1 \<inter> below cs"
    using inv by (simp_all add: treeInv_def)
  have wf': "wfLevel lc (cs @ [name n]) ch'" and dist': "distinct (folderPaths ch')"
    and linked': "set (folderPaths ch') = fm2 \<inter> below (cs @ [name n])"
    using inv' by (simp_all add: treeInv_def)
  have a: "segsOK [name n]"
    using wfNode_folder [OF _ folder] wfLevel_parts [OF wf] by auto
  have old: "set (folderPaths (children n)) = fm1 \<inter> below (cs @ [name n])"
    using linked_descend [OF wf dist linked folder] .
  have new: "set (folderPaths ch') = set (folderPaths (children n)) \<union> (fm2 - fm1)"
    using linked' old grow by auto
  have sub: "fm2 - fm1 \<subseteq> below cs" using grow(2) below_extend [OF a] by blast
  have 1: "wfLevel lc cs (before @ ?n' # after)"
    using wfLevel_replace [OF wf folder wf'] .
  have 2: "set (folderPaths (before @ ?n' # after)) = fm2 \<inter> below cs"
  proof -
    have "set (folderPaths (before @ ?n' # after))
          = set (folderPaths (before @ n # after)) \<union> (fm2 - fm1)"
      using new folder by auto
    then show ?thesis using linked grow(1) sub by auto
  qed
  have fresh: "(fm2 - fm1) \<inter> set (folderPaths (before @ n # after)) = {}"
    using linked by auto
  have 3: "distinct (folderPaths (before @ ?n' # after))"
    using dist dist' new fresh folder by auto
  show ?thesis using 1 2 3 by (simp add: treeInv_def)
qed

lemma treeInv_children:
  assumes inv: "treeInv lc cs (before @ n # after) fm" and folder: "nodeType n = FolderType"
  shows "treeInv lc (cs @ [name n]) (children n) fm"
proof -
  have wf: "wfLevel lc cs (before @ n # after)"
    and dist: "distinct (folderPaths (before @ n # after))"
    and linked: "set (folderPaths (before @ n # after)) = fm \<inter> below cs"
    using inv by (simp_all add: treeInv_def)
  have "wfLevel lc (cs @ [name n]) (children n)"
    using wfNode_folder [OF _ folder] wfLevel_parts [OF wf] by auto
  moreover have "distinct (folderPaths (children n))" using dist by auto
  ultimately show ?thesis
    using linked_descend [OF wf dist linked folder] by (simp add: treeInv_def)
qed

text \<open>Pushing a node and sorting the level.\<close>

lemma wfLevel_push:
  assumes "consistentComparator lc" and "wfLevel lc cs level" and "wfNode lc cs n"
  shows "wfLevel lc cs (sortBy (compareNodes lc) (level @ [n]))"
  using assms sorted_sortBy [OF consistent_compareNodes [OF assms(1)], of "level @ [n]"]
  by (auto simp: wfLevel_def set_sortBy)

lemma treeInv_push_file:
  assumes "consistentComparator lc" and "treeInv lc cs level fm"
  shows "treeInv lc cs (sortBy (compareNodes lc) (level @ [FileNode nm p FileType [] f])) fm"
proof -
  let ?n = "FileNode nm p FileType [] f"
  have m: "mset (folderPaths (sortBy (compareNodes lc) (level @ [?n]))) = mset (folderPaths level)"
    using mset_folderPaths_cong [OF mset_sortBy [of "compareNodes lc" "level @ [?n]"]] by simp
  have "wfLevel lc cs (sortBy (compareNodes lc) (level @ [?n]))"
    using assms by (intro wfLevel_push) (auto simp: treeInv_def)
  moreover have "distinct (folderPaths (sortBy (compareNodes lc) (level @ [?n])))"
    using mset_eq_imp_distinct_iff [OF m] assms(2) by (simp add: treeInv_def)
  moreover have "set (folderPaths (sortBy (compareNodes lc) (level @ [?n]))) = set (folderPaths level)"
    using mset_eq_setD [OF m] .
  ultimately show ?thesis using assms(2) by (simp add: treeInv_def)
qed

lemma treeInv_push_folder:
  assumes "consistentComparator lc" and "treeInv lc cs level fm" and "segsOK [a]"
    and "joinPath (cs @ [a]) \<notin> fm"
  shows "treeInv lc cs
           (sortBy (compareNodes lc) (level @ [FileNode a (joinPath (cs @ [a])) FolderType [] None]))
           (insert (joinPath (cs @ [a])) fm)"
proof -
  let ?n = "FileNode a (joinPath (cs @ [a])) FolderType [] None"
  have m: "mset (folderPaths (sortBy (compareNodes lc) (level @ [?n])))
           = add_mset (joinPath (cs @ [a])) (mset (folderPaths level))"
    using mset_folderPaths_cong [OF mset_sortBy [of "compareNodes lc" "level @ [?n]"]] by simp
  have linked: "set (folderPaths level) = fm \<inter> below cs" using assms(2) by (simp add: treeInv_def)
  have b: "joinPath (cs @ [a]) \<in> below cs"
    unfolding below_def using assms(3) by blast
  have "wfLevel lc cs (sortBy (compareNodes lc) (level @ [?n]))"
    using assms by (intro wfLevel_push) (auto simp: treeInv_def)
  moreover have "distinct (folderPaths (sortBy (compareNodes lc) (level @ [?n])))"
  proof -
    have "distinct (joinPath (cs @ [a]) # folderPaths level)"
      using assms(2,4) linked by (auto simp: treeInv_def)
    then show ?thesis
      using mset_eq_imp_distinct_iff [of "folderPaths (sortBy (compareNodes lc) (level @ [?n]))"
          "joinPath (cs @ [a]) # folderPaths level"] m by simp
  qed
  moreover have "set (folderPaths (sortBy (compareNodes lc) (level @ [?n])))
                 = insert (joinPath (cs @ [a])) (set (folderPaths level))"
    using mset_eq_setD [of "folderPaths (sortBy (compareNodes lc) (level @ [?n]))"
        "joinPath (cs @ [a]) # folderPaths level"] m by simp
  ultimately show ?thesis using linked b by (auto simp: treeInv_def)
qed

subsection \<open>Adding one file, adding them all\<close>

lemma addFile_invariant:
  assumes cons: "consistentComparator lc"
  shows "parts \<noteq> [] \<Longrightarrow> segsOK parts \<Longrightarrow> treeInv lc cs level (set fm)
    \<Longrightarrow> \<exists>level' fm'. addFile lc f parts (joinPath cs) level fm = Some (level', fm')
          \<and> treeInv lc cs level' (set fm')
          \<and> set fm' = set fm \<union> {joinPath (cs @ take k parts) | k. 0 < k \<and> k < length parts}
          \<and> mset (fileNodes level')
              = add_mset (FileNode (last parts) (path f) FileType [] (Some f)) (mset (fileNodes level))"
proof (induction parts arbitrary: cs level fm)
  case Nil
  then show ?case by simp
next
  case (Cons a ps)
  show ?case
  proof (cases ps)
    case Nil
    let ?n = "FileNode a (path f) FileType [] (Some f)"
    let ?level' = "sortBy (compareNodes lc) (level @ [?n])"
    have 1: "addFile lc f (a # ps) (joinPath cs) level fm = Some (?level', fm)"
      using Nil by simp
    have 2: "treeInv lc cs ?level' (set fm)"
      using treeInv_push_file [OF cons Cons.prems(3)] .
    have 3: "mset (fileNodes ?level') = add_mset ?n (mset (fileNodes level))"
      using mset_fileNodes_cong [OF mset_sortBy [of "compareNodes lc" "level @ [?n]"]] by simp
    have 4: "{joinPath (cs @ take k (a # ps)) | k. 0 < k \<and> k < length (a # ps)} = {}"
      using Nil by auto
    show ?thesis using 1 2 3 4 Nil by simp
  next
    case (Cons part rest)
    let ?cur = "joinPath (cs @ [a])"
    let ?new = "FileNode a ?cur FolderType [] None"
    define level1 where
      "level1 = (if ?cur \<in> set fm then level else sortBy (compareNodes lc) (level @ [?new]))"
    define fm1 where "fm1 = (if ?cur \<in> set fm then fm else ?cur # fm)"
    have a: "segsOK [a]" and ps: "segsOK ps" "ps \<noteq> []"
      using Cons.prems(2) Cons by auto
    have inv: "treeInv lc cs level (set fm)" using Cons.prems(3) .
    have inv1: "treeInv lc cs level1 (set fm1)"
      using inv treeInv_push_folder [OF cons inv a] by (auto simp: level1_def fm1_def)
    have set1: "set fm1 = insert ?cur (set fm)" by (auto simp: fm1_def)
    have files1: "mset (fileNodes level1) = mset (fileNodes level)"
      using mset_fileNodes_cong [OF mset_sortBy [of "compareNodes lc" "level @ [?new]"]]
      by (simp add: level1_def)
    have "?cur \<in> set fm1 \<inter> below cs"
      using set1 a unfolding below_def by blast
    then have inl: "?cur \<in> set (folderPaths level1)" using inv1 by (simp add: treeInv_def)
    have wf1: "wfLevel lc cs level1" using inv1 by (simp add: treeInv_def)
    have "\<exists>n \<in> set level1. nodeType n = FolderType \<and> nodePath n = ?cur"
      using folder_at_level [OF wf1 inl a] .
    then obtain before n after where ff: "findFolder ?cur level1 = Some (before, n, after)"
      using findFolder_exists by blast
    have l1: "level1 = before @ n # after" and folder: "nodeType n = FolderType"
      and pn: "nodePath n = ?cur"
      using findFolder_Some [OF ff] by auto
    have inv1': "treeInv lc cs (before @ n # after) (set fm1)" using inv1 l1 by simp
    have wfn: "wfNode lc cs n"
      using inv1' wfLevel_parts [of lc cs before n after] by (simp add: treeInv_def)
    have "joinPath (cs @ [name n]) = joinPath (cs @ [a])"
      using wfNode_folder [OF wfn folder] pn by simp
    then have "[name n] = [a]"
      using joinPath_append_inject [of "[name n]" "[a]" cs] a wfNode_folder [OF wfn folder] by simp
    then have nm: "name n = a" by simp
    have invc: "treeInv lc (cs @ [a]) (children n) (set fm1)"
      using treeInv_children [OF inv1' folder] nm by simp
    obtain ch' fm2 where
      rec: "addFile lc f ps (joinPath (cs @ [a])) (children n) fm1 = Some (ch', fm2)"
      and inv2: "treeInv lc (cs @ [a]) ch' (set fm2)"
      and set2: "set fm2 = set fm1 \<union> {joinPath ((cs @ [a]) @ take k ps) | k. 0 < k \<and> k < length ps}"
      and files2: "mset (fileNodes ch')
                    = add_mset (FileNode (last ps) (path f) FileType [] (Some f))
                        (mset (fileNodes (children n)))"
      using Cons.IH [OF ps(2) ps(1) invc] by blast
    let ?n' = "FileNode (name n) (nodePath n) (nodeType n) ch' (nodeFile n)"
    let ?level' = "before @ [?n'] @ after"
    have pair: "(if ?cur \<in> set fm then (level, fm)
                 else (sortBy (compareNodes lc) (level @ [?new]), ?cur # fm)) = (level1, fm1)"
      by (simp add: level1_def fm1_def)
    have cur_eq: "joinPath cs @ ''/'' @ a = ?cur" by simp
    have 1: "addFile lc f (a # ps) (joinPath cs) level fm = Some (?level', fm2)"
      unfolding Cons addFile.simps Let_def cur_eq pair
      using ff rec [unfolded Cons] by simp
    have sub: "{joinPath ((cs @ [a]) @ take k ps) | k. 0 < k \<and> k < length ps} \<subseteq> below (cs @ [a])"
    proof
      fix q assume "q \<in> {joinPath ((cs @ [a]) @ take k ps) | k. 0 < k \<and> k < length ps}"
      then obtain k where k: "0 < k" "k < length ps" "q = joinPath ((cs @ [a]) @ take k ps)"
        by blast
      have "take k ps \<noteq> []" using k by auto
      moreover have "segsOK (take k ps)"
        using ps(1) by (auto simp: segsOK_def dest: in_set_takeD)
      ultimately show "q \<in> below (cs @ [a])" unfolding below_def using k(3) by blast
    qed
    have 2: "treeInv lc cs ?level' (set fm2)"
      using treeInv_ascend [OF inv1' folder, of ch' "set fm2"] inv2 set2 sub nm by auto
    have 3: "set fm2 = set fm \<union> {joinPath (cs @ take k (a # ps)) | k. 0 < k \<and> k < length (a # ps)}"
    proof -
      have "{joinPath (cs @ take k (a # ps)) | k. 0 < k \<and> k < length (a # ps)}
            = insert ?cur {joinPath ((cs @ [a]) @ take k ps) | k. 0 < k \<and> k < length ps}"
        (is "?L = ?R")
      proof (intro equalityI subsetI)
        fix q assume "q \<in> ?L"
        then obtain k where k: "0 < k" "k < length (a # ps)" "q = joinPath (cs @ take k (a # ps))"
          by blast
        then obtain j where j: "k = Suc j" by (cases k) auto
        show "q \<in> ?R"
        proof (cases j)
          case 0
          then show ?thesis using k j by simp
        next
          case (Suc i)
          then have "0 < j \<and> j < length ps \<and> q = joinPath ((cs @ [a]) @ take j ps)"
            using k j by simp
          then show ?thesis by blast
        qed
      next
        fix q assume "q \<in> ?R"
        then consider "q = ?cur" | k where "0 < k" "k < length ps" "q = joinPath ((cs @ [a]) @ take k ps)"
          by blast
        then show "q \<in> ?L"
        proof cases
          case 1
          then have "0 < (1::nat) \<and> 1 < length (a # ps) \<and> q = joinPath (cs @ take 1 (a # ps))"
            using ps(2) by (cases ps) auto
          then show ?thesis by blast
        next
          case 2
          then have "0 < Suc k \<and> Suc k < length (a # ps) \<and> q = joinPath (cs @ take (Suc k) (a # ps))"
            by simp
          then show ?thesis by blast
        qed
      qed
      then show ?thesis using set2 set1 by auto
    qed
    have 4: "mset (fileNodes ?level')
             = add_mset (FileNode (last (a # ps)) (path f) FileType [] (Some f)) (mset (fileNodes level))"
    proof -
      have fn: "nodeType n \<noteq> FileType" using folder by simp
      have A: "mset (fileNodes ?level')
               = mset (fileNodes before) + mset (fileNodes ch') + mset (fileNodes after)"
        using fn by simp
      have B: "mset (fileNodes level1)
               = mset (fileNodes before) + mset (fileNodes (children n)) + mset (fileNodes after)"
        using fn l1 by simp
      have C: "last (a # ps) = last ps" using ps(2) by simp
      show ?thesis unfolding A C files2 using B files1 by simp
    qed
    show ?thesis using 1 2 3 4 by blast
  qed
qed

lemma treeInv_empty: "treeInv lc [] [] {}"
  by (simp add: treeInv_def)

lemma dirs_of_path:
  assumes "wellFormedPath p"
  shows "{joinPath ([] @ take k (pathParts p)) | k. 0 < k \<and> k < length (pathParts p)}
         = {d. d \<noteq> [] \<and> underFolder d p}"
  using dir_prefix_iff [OF segsOK_pathParts [of p]] wellFormed_pathParts [OF assms] by auto

lemma addFiles_invariant:
  assumes cons: "consistentComparator lc"
  shows "list_all (\<lambda>f. wellFormedPath (path f)) fs \<Longrightarrow> treeInv lc [] tree (set fm)
    \<Longrightarrow> \<exists>tree' fm'. addFiles lc fs tree fm = Some (tree', fm')
          \<and> treeInv lc [] tree' (set fm')
          \<and> set fm' = set fm \<union> {d. d \<noteq> [] \<and> (\<exists>f \<in> set fs. underFolder d (path f))}
          \<and> mset (fileNodes tree') = mset (fileNodes tree) + mset (map fileNodeOf fs)"
proof (induction fs arbitrary: tree fm)
  case Nil
  then show ?case by simp
next
  case (Cons f fs)
  have wfp: "wellFormedPath (path f)" and rest: "list_all (\<lambda>f. wellFormedPath (path f)) fs"
    using Cons.prems(1) by simp_all
  have parts: "pathParts (path f) \<noteq> []" "segsOK (pathParts (path f))"
    using wellFormed_pathParts [OF wfp] segsOK_pathParts by auto
  obtain tree1 fm1 where
    1: "addFile lc f (pathParts (path f)) (joinPath []) tree fm = Some (tree1, fm1)"
    and inv1: "treeInv lc [] tree1 (set fm1)"
    and set1: "set fm1 = set fm \<union> {joinPath ([] @ take k (pathParts (path f))) | k.
                                     0 < k \<and> k < length (pathParts (path f))}"
    and files1: "mset (fileNodes tree1) = add_mset (fileNodeOf f) (mset (fileNodes tree))"
    using addFile_invariant [OF cons parts Cons.prems(2), of f] unfolding fileNodeOf_def by blast
  obtain tree' fm' where
    2: "addFiles lc fs tree1 fm1 = Some (tree', fm')"
    and inv2: "treeInv lc [] tree' (set fm')"
    and set2: "set fm' = set fm1 \<union> {d. d \<noteq> [] \<and> (\<exists>f \<in> set fs. underFolder d (path f))}"
    and files2: "mset (fileNodes tree') = mset (fileNodes tree1) + mset (map fileNodeOf fs)"
    using Cons.IH [OF rest inv1] by blast
  have a: "addFiles lc (f # fs) tree fm = Some (tree', fm')"
    using 1 2 by simp
  have b: "set fm' = set fm \<union> {d. d \<noteq> [] \<and> (\<exists>g \<in> set (f # fs). underFolder d (path g))}"
    unfolding set2 set1 dirs_of_path [OF wfp] by auto
  have c: "mset (fileNodes tree') = mset (fileNodes tree) + mset (map fileNodeOf (f # fs))"
    unfolding files2 files1 by simp
  show ?case using a inv2 b c by blast
qed

lemma children_sorted:
  "wfNode lc cs n \<Longrightarrow> m \<in> set (nodes n) \<Longrightarrow> sorted_wrt (\<lambda>a b. compareNodes lc a b \<le> 0) (children m)"
proof (induction n arbitrary: cs)
  case (FileNode nm p t ch f)
  show ?case
  proof (cases "m = FileNode nm p t ch f")
    case True
    then show ?thesis using FileNode.prems(1) by (auto split: if_splits)
  next
    case False
    then obtain c where c: "c \<in> set ch" "m \<in> set (nodes c)"
      using FileNode.prems(2) by auto
    then have "wfNode lc (cs @ [nm]) c" using FileNode.prems(1) by (auto split: if_splits)
    then show ?thesis using FileNode.IH [OF c(1) _ c(2)] by blast
  qed
qed

lemma in_forestNodes: "(m \<in> set (forestNodes level)) = (\<exists>n \<in> set level. m \<in> set (nodes n))"
  unfolding forestNodes_def by auto

lemma wfLevel_allLevelsOrdered:
  assumes "wfLevel lc cs level"
  shows "allLevelsOrdered lc level"
proof -
  have "levelOrdered lc (children m)" if m: "m \<in> set (forestNodes level)" for m
  proof -
    obtain n where "n \<in> set level" "m \<in> set (nodes n)"
      using m unfolding in_forestNodes by blast
    then show ?thesis
      using children_sorted [of lc cs n m] assms by (auto simp: wfLevel_def intro: levelOrdered_sorted)
  qed
  then show ?thesis
    using assms by (auto simp: allLevelsOrdered_def list_all_iff wfLevel_def intro: levelOrdered_sorted)
qed

text \<open>
  C10. For a consistent \<open>localeCompare\<close> and input files with well-formed absolute paths,
  pairwise distinct, \<open>buildFileTree\<close> returns a forest in which the file nodes are the
  input files, each once, with its path and its file object; the folder nodes have
  pairwise distinct paths, which are the strict directory prefixes of the input paths;
  and every sibling level has its folders before its files, each type in ascending order
  of names.
\<close>

theorem buildFileTree_forest:
  assumes "consistentComparator lc"
    and "list_all (\<lambda>f. wellFormedPath (path f)) files"
    and "distinct (map path files)"
  shows "\<exists>tree. buildFileTree lc files = Some tree
           \<and> mset (map (\<lambda>n. (nodePath n, nodeFile n)) (fileNodes tree))
               = mset (map (\<lambda>f. (path f, Some f)) files)
           \<and> distinct (map nodePath (fileNodes tree))
           \<and> distinct (map nodePath (folderNodes tree))
           \<and> set (map nodePath (folderNodes tree))
               = {d. d \<noteq> [] \<and> (\<exists>f \<in> set files. underFolder d (path f))}
           \<and> allLevelsOrdered lc tree"
proof -
  let ?sorted = "sortBy (\<lambda>a b. lc (path a) (path b)) files"
  have ms: "mset ?sorted = mset files" by (rule mset_sortBy)
  have st: "set ?sorted = set files" by (rule set_sortBy)
  have wf: "list_all (\<lambda>f. wellFormedPath (path f)) ?sorted"
    using assms(2) st by (simp add: list_all_iff)
  obtain tree fm where
    run: "addFiles lc ?sorted [] [] = Some (tree, fm)"
    and inv: "treeInv lc [] tree (set fm)"
    and fmset: "set fm = set [] \<union> {d. d \<noteq> [] \<and> (\<exists>f \<in> set ?sorted. underFolder d (path f))}"
    and fl: "mset (fileNodes tree) = mset (fileNodes []) + mset (map fileNodeOf ?sorted)"
    using addFiles_invariant [OF assms(1) wf, of "[]" "[]"] treeInv_empty [of lc] by auto
  have 1: "buildFileTree lc files = Some tree"
    using run by (simp add: buildFileTree_def)
  have "mset (map fileNodeOf ?sorted) = image_mset fileNodeOf (mset ?sorted)" by simp
  then have fl': "mset (fileNodes tree) = image_mset fileNodeOf (mset files)"
    unfolding ms using fl by simp
  have 2: "mset (map (\<lambda>n. (nodePath n, nodeFile n)) (fileNodes tree))
           = mset (map (\<lambda>f. (path f, Some f)) files)"
  proof -
    have "mset (map (\<lambda>n. (nodePath n, nodeFile n)) (fileNodes tree))
          = image_mset (\<lambda>n. (nodePath n, nodeFile n)) (image_mset fileNodeOf (mset files))"
      using fl' by simp
    also have "\<dots> = image_mset (\<lambda>f. (path f, Some f)) (mset files)"
      by (simp add: image_mset.compositionality comp_def fileNodeOf_def)
    finally show ?thesis by simp
  qed
  have "mset (map nodePath (fileNodes tree)) = mset (map path files)"
  proof -
    have "mset (map nodePath (fileNodes tree)) = image_mset nodePath (image_mset fileNodeOf (mset files))"
      using fl' by simp
    also have "\<dots> = image_mset path (mset files)"
      by (simp add: image_mset.compositionality comp_def fileNodeOf_def)
    finally show ?thesis by simp
  qed
  then have 3: "distinct (map nodePath (fileNodes tree))"
    using mset_eq_imp_distinct_iff assms(3) by blast
  have 4: "distinct (map nodePath (folderNodes tree))"
    using inv by (simp add: treeInv_def folderPaths_def)
  have sub: "set fm \<subseteq> below []"
  proof
    fix d assume "d \<in> set fm"
    then obtain f where f: "f \<in> set files" "d \<noteq> []" "underFolder d (path f)"
      using fmset st by auto
    have w: "wellFormedPath (path f)" using assms(2) f(1) by (simp add: list_all_iff)
    then obtain k where k: "0 < k" "k < length (pathParts (path f))"
        "d = joinPath ([] @ take k (pathParts (path f)))"
      using dirs_of_path [OF w] f(2,3) by blast
    have "take k (pathParts (path f)) \<noteq> []" using k by auto
    moreover have "segsOK (take k (pathParts (path f)))"
      using segsOK_pathParts [of "path f"] by (auto simp: segsOK_def dest: in_set_takeD)
    ultimately show "d \<in> below []" unfolding below_def using k(3) by blast
  qed
  have 5: "set (map nodePath (folderNodes tree))
           = {d. d \<noteq> [] \<and> (\<exists>f \<in> set files. underFolder d (path f))}"
  proof -
    have "set (folderPaths tree) = set fm" using inv sub by (auto simp: treeInv_def)
    then show ?thesis using fmset st by (simp add: folderPaths_def)
  qed
  have 6: "allLevelsOrdered lc tree"
    using inv wfLevel_allLevelsOrdered by (auto simp: treeInv_def)
  show ?thesis using 1 2 3 4 5 6 by blast
qed

lemma consistent_codeCompare: "consistentComparator codeCompare"
  by (auto simp: consistentComparator_def codeCompare_def)

subsection \<open>An example\<close>

lemma exampleFiles_wellFormed: "list_all (\<lambda>f. wellFormedPath (path f)) exampleFiles"
  by code_simp

lemma exampleFiles_distinct: "distinct (map path exampleFiles)"
  by code_simp

lemma buildFileTree_example: "buildFileTree codeCompare exampleFiles = Some exampleTree"
  by code_simp

theorem buildFileTree_forest_witness:
  "consistentComparator codeCompare
   \<and> list_all (\<lambda>f. wellFormedPath (path f)) exampleFiles
   \<and> distinct (map path exampleFiles)
   \<and> buildFileTree codeCompare exampleFiles = Some exampleTree
   \<and> mset (map (\<lambda>n. (nodePath n, nodeFile n)) (fileNodes exampleTree))
       = mset (map (\<lambda>f. (path f, Some f)) exampleFiles)
   \<and> distinct (map nodePath (folderNodes exampleTree))
   \<and> map nodePath (folderNodes exampleTree) = [''/src'', ''/src/lib'']
   \<and> allLevelsOrdered codeCompare exampleTree"
proof -
  have folders: "map nodePath (folderNodes exampleTree) = [''/src'', ''/src/lib'']"
    by code_simp
  show ?thesis
    using buildFileTree_forest
      [OF consistent_codeCompare exampleFiles_wellFormed exampleFiles_distinct]
      buildFileTree_example consistent_codeCompare exampleFiles_wellFormed
      exampleFiles_distinct folders
    by auto
qed

end
